theory Spec2Isabelle
  imports Complex_Main "HOL-Library.Product_Lexorder"
begin

section \<open>Strings\<close>

text \<open>
  A Python \<open>str\<close> is modelled as a \<^typ>\<open>string\<close>, a list of 8-bit characters: the code
  points below 256. The library functions the sources call are written out on that range.
\<close>

text \<open>\<open>str.isspace\<close> on one character: the white space that \<open>strip()\<close> and \<open>split()\<close> remove.\<close>

definition is_space :: "char \<Rightarrow> bool" where
  "is_space c = ((of_char c :: nat) \<in> {9, 10, 11, 12, 13, 28, 29, 30, 31, 32, 133, 160})"

text \<open>\<open>s.strip()\<close>\<close>

definition strip :: "string \<Rightarrow> string" where
  "strip s = rev (dropWhile is_space (rev (dropWhile is_space s)))"

text \<open>\<open>s.split()\<close>: the maximal runs of characters that are not white space.\<close>

fun split_aux :: "string \<Rightarrow> string \<Rightarrow> string list" where
  "split_aux w [] = (if w = [] then [] else [w])"
| "split_aux w (c # cs) =
     (if is_space c then (if w = [] then split_aux [] cs else w # split_aux [] cs)
      else split_aux (w @ [c]) cs)"

definition split_ws :: "string \<Rightarrow> string list" where
  "split_ws s = split_aux [] s"

text \<open>\<open>" ".join(words)\<close>\<close>

fun join_space :: "string list \<Rightarrow> string" where
  "join_space [] = []"
| "join_space [w] = w"
| "join_space (w # v # ws) = w @ '' '' @ join_space (v # ws)"

section \<open>myutils.py: chunk\_text\<close>

datatype error = TypeError | ValueError | KeyError

text \<open>
  \<open>re.split(r'(?<=[.!?])', text)\<close>: the pattern matches the empty string after every
  \<open>.\<close>, \<open>!\<close> or \<open>?\<close>, and the text is cut at each of these positions. The piece after the
  last cut is always there, also when it is empty.
\<close>

definition is_terminator :: "char \<Rightarrow> bool" where
  "is_terminator c = (c = CHR ''.'' \<or> c = CHR ''!'' \<or> c = CHR ''?'')"

fun split_sentences_aux :: "string \<Rightarrow> string \<Rightarrow> string list" where
  "split_sentences_aux cur [] = [cur]"
| "split_sentences_aux cur (c # cs) =
     (if is_terminator c then (cur @ [c]) # split_sentences_aux [] cs
      else split_sentences_aux (cur @ [c]) cs)"

definition split_sentences :: "string \<Rightarrow> string list" where
  "split_sentences text = split_sentences_aux [] text"

text \<open>
  \<open>for i in range(0, len(s), max_chars): chunks.append(s[i:i + max_chars])\<close>.
  The loop is only reached with \<open>max_chars > 0\<close>.
\<close>

function hard_split :: "nat \<Rightarrow> string \<Rightarrow> string list" where
  "hard_split n s = (if n = 0 \<or> s = [] then [] else take n s # hard_split n (drop n s))"
  by pat_completeness auto
termination
  by (relation "measure (\<lambda>(n, s). length s)") auto

declare hard_split.simps [simp del]

text \<open>One round of the loop over the sentences; the state is \<open>(chunks, cur)\<close>.\<close>

definition chunk_step :: "nat \<Rightarrow> string list \<times> string \<Rightarrow> string \<Rightarrow> string list \<times> string" where
  "chunk_step max_chars st s0 =
     (case st of (chunks, cur) \<Rightarrow>
        let s = strip s0 in
        if s = [] then (chunks, cur)
        else if length cur + length s + 1 \<le> max_chars then (chunks, strip (cur @ '' '' @ s))
        else
          let chunks1 = (if cur \<noteq> [] then chunks @ [cur] else chunks) in
          if length s > max_chars then (chunks1 @ hard_split max_chars s, [])
          else (chunks1, s))"

text \<open>The chunks before the overlap pass: the loop, then the flush of \<open>cur\<close>.\<close>

definition pre_overlap_chunks :: "string \<Rightarrow> nat \<Rightarrow> string list" where
  "pre_overlap_chunks text max_chars =
     (case foldl (chunk_step max_chars) ([], []) (split_sentences text) of
        (chunks, cur) \<Rightarrow> if cur \<noteq> [] then chunks @ [cur] else chunks)"

text \<open>
  The inner loop of the overlap pass, over \<open>reversed(prev_words)\<close>: \<open>char_count\<close> and
  \<open>overlap_words\<close> are the accumulators, and \<open>break\<close> returns what was collected.
\<close>

fun take_overlap :: "nat \<Rightarrow> nat \<Rightarrow> string list \<Rightarrow> string list \<Rightarrow> string list" where
  "take_overlap overlap char_count [] overlap_words = overlap_words"
| "take_overlap overlap char_count (w # ws) overlap_words =
     (if char_count + length w + 1 > overlap then overlap_words
      else take_overlap overlap (char_count + length w + 1) ws (w # overlap_words))"

text \<open>One round of the overlap pass; \<open>i == 0\<close> is the round where \<open>new_chunks\<close> is empty.\<close>

definition overlap_step :: "nat \<Rightarrow> string list \<Rightarrow> string \<Rightarrow> string list" where
  "overlap_step overlap new_chunks c =
     (if new_chunks = [] then [c]
      else
        let prev = last new_chunks;
            prev_words = split_ws prev;
            overlap_words = take_overlap overlap 0 (rev prev_words) [];
            overlap_text = join_space overlap_words;
            candidate = strip (overlap_text @ '' '' @ c)
        in new_chunks @ [candidate])"

definition apply_overlap :: "nat \<Rightarrow> string list \<Rightarrow> string list" where
  "apply_overlap overlap chunks =
     (if overlap \<noteq> 0 \<and> length chunks > 1 then foldl (overlap_step overlap) [] chunks
      else chunks)"

text \<open>
  \<open>chunk_text(text, max_chars, overlap)\<close>. The text is a \<open>str\<close> by its type, so the
  \<open>TypeError\<close> branch is not reachable in the model.
\<close>

definition chunk_text :: "string \<Rightarrow> int \<Rightarrow> int \<Rightarrow> error + string list" where
  "chunk_text text max_chars overlap =
     (if max_chars \<le> 0 then Inl ValueError
      else if overlap < 0 then Inl ValueError
      else Inr (apply_overlap (nat overlap) (pre_overlap_chunks text (nat max_chars))))"

section \<open>normalize\_name\<close>

text \<open>
  \<open>str.lower()\<close> on one character: the capital letters of ASCII and of Latin-1 are moved
  to their small letters, 32 code points up.
\<close>

definition lower_char :: "char \<Rightarrow> char" where
  "lower_char c =
     (let n = (of_char c :: nat) in
      if (65 \<le> n \<and> n \<le> 90) \<or> (192 \<le> n \<and> n \<le> 222 \<and> n \<noteq> 215) then char_of (n + 32) else c)"

definition lower :: "string \<Rightarrow> string" where
  "lower s = map lower_char s"

text \<open>\<open>s.rstrip(".")\<close>\<close>

definition rstrip_dot :: "string \<Rightarrow> string" where
  "rstrip_dot s = rev (dropWhile (\<lambda>c. c = CHR ''.'') (rev s))"

definition prefixes :: "string list" where
  "prefixes = [''dr'', ''mr'', ''mrs'', ''ms'', ''prof'', ''sir'']"

text \<open>
  \<open>normalize_name\<close>, the same in \<open>dedupe_entities.py\<close> and \<open>resolve_entities.py\<close>.
  \<open>name.lower().strip()\<close> is split at white space, so the \<open>strip()\<close> changes nothing in
  the result; it is kept as the code has it.
\<close>

definition normalize_name :: "string \<Rightarrow> string" where
  "normalize_name name0 =
     (let name = strip (lower name0);
          parts = split_ws name;
          parts1 = (if parts \<noteq> [] \<and> rstrip_dot (hd parts) \<in> set prefixes then tl parts else parts)
      in join_space parts1)"

section \<open>difflib.SequenceMatcher\<close>

text \<open>
  The sources score two names with \<open>SequenceMatcher(None, a, b).ratio()\<close> of Python's
  \<open>difflib\<close>. The functions below follow \<open>difflib.py\<close> with \<open>isjunk = None\<close> and
  \<open>autojunk = True\<close>, the values the sources pass: there is no junk, so \<open>bjunk\<close> is empty and
  the tests \<open>isbjunk(...)\<close> are false.
\<close>

text \<open>
  \<open>__chain_b\<close>: \<open>b2j[elt]\<close> is the increasing list of the positions of \<open>elt\<close> in \<open>b\<close>. When
  \<open>b\<close> has 200 elements or more, an element that occurs more than \<open>n // 100 + 1\<close> times is
  popular and is deleted from \<open>b2j\<close>. \<open>b2j.get(elt, [])\<close> is the empty list for an element
  that is no key.
\<close>

definition b2j :: "string \<Rightarrow> char \<Rightarrow> nat list" where
  "b2j b elt =
     (let idxs = filter (\<lambda>j. b ! j = elt) [0..<length b] in
      if length b \<ge> 200 \<and> length idxs > length b div 100 + 1 then [] else idxs)"

text \<open>
  The inner loop of \<open>find_longest_match\<close>, \<open>for j in b2j.get(a[i], nothing)\<close>; \<open>continue\<close>
  goes on with the next \<open>j\<close> and \<open>break\<close> returns. \<open>j2len.get(j-1, 0)\<close> is \<open>0\<close> for
  \<open>j = 0\<close>, since \<open>-1\<close> is never a key.
\<close>

fun flm_inner ::
  "nat \<Rightarrow> nat \<Rightarrow> nat \<Rightarrow> (nat \<rightharpoonup> nat) \<Rightarrow> nat list \<Rightarrow> (nat \<rightharpoonup> nat) \<Rightarrow> nat \<times> nat \<times> nat \<Rightarrow>
     (nat \<rightharpoonup> nat) \<times> (nat \<times> nat \<times> nat)" where
  "flm_inner i blo bhi j2len [] newj2len best = (newj2len, best)"
| "flm_inner i blo bhi j2len (j # js) newj2len best =
     (if j < blo then flm_inner i blo bhi j2len js newj2len best
      else if j \<ge> bhi then (newj2len, best)
      else
        let k = (if j = 0 then 0 else (case j2len (j - 1) of Some l \<Rightarrow> l | None \<Rightarrow> 0)) + 1 in
        flm_inner i blo bhi j2len js (newj2len(j \<mapsto> k))
          (case best of (besti, bestj, bestsize) \<Rightarrow>
             if k > bestsize then (i + 1 - k, j + 1 - k, k) else best))"

text \<open>One round of the outer loop \<open>for i in range(alo, ahi)\<close>; the state is \<open>(j2len, best)\<close>.\<close>

definition flm_outer ::
  "string \<Rightarrow> string \<Rightarrow> nat \<Rightarrow> nat \<Rightarrow> (nat \<rightharpoonup> nat) \<times> (nat \<times> nat \<times> nat) \<Rightarrow> nat \<Rightarrow>
     (nat \<rightharpoonup> nat) \<times> (nat \<times> nat \<times> nat)" where
  "flm_outer a b blo bhi st i =
     (case st of (j2len, best) \<Rightarrow> flm_inner i blo bhi j2len (b2j b (a ! i)) Map.empty best)"

text \<open>
  The two loops that extend the best match by elements that are no junk, to the left and to
  the right. The two loops after them extend by junk and never run.
\<close>

function extend_left :: "string \<Rightarrow> string \<Rightarrow> nat \<Rightarrow> nat \<Rightarrow> nat \<times> nat \<times> nat \<Rightarrow> nat \<times> nat \<times> nat" where
  "extend_left a b alo blo (besti, bestj, bestsize) =
     (if besti > alo \<and> bestj > blo \<and> a ! (besti - 1) = b ! (bestj - 1)
      then extend_left a b alo blo (besti - 1, bestj - 1, bestsize + 1)
      else (besti, bestj, bestsize))"
  by pat_completeness auto
termination
  by (relation "measure (\<lambda>(a, b, alo, blo, besti, bestj, bestsize). besti)") auto

function extend_right :: "string \<Rightarrow> string \<Rightarrow> nat \<Rightarrow> nat \<Rightarrow> nat \<times> nat \<times> nat \<Rightarrow> nat \<times> nat \<times> nat" where
  "extend_right a b ahi bhi (besti, bestj, bestsize) =
     (if besti + bestsize < ahi \<and> bestj + bestsize < bhi \<and>
         a ! (besti + bestsize) = b ! (bestj + bestsize)
      then extend_right a b ahi bhi (besti, bestj, bestsize + 1)
      else (besti, bestj, bestsize))"
  by pat_completeness auto
termination
  by (relation "measure (\<lambda>(a, b, ahi, bhi, besti, bestj, bestsize). ahi - (besti + bestsize))") auto

declare extend_left.simps [simp del]
declare extend_right.simps [simp del]

definition find_longest_match ::
  "string \<Rightarrow> string \<Rightarrow> nat \<Rightarrow> nat \<Rightarrow> nat \<Rightarrow> nat \<Rightarrow> nat \<times> nat \<times> nat" where
  "find_longest_match a b alo ahi blo bhi =
     extend_right a b ahi bhi
       (extend_left a b alo blo
          (snd (foldl (flm_outer a b blo bhi) (Map.empty, (alo, blo, 0)) [alo..<ahi])))"

text \<open>
  The invariant of the outer loop after \<open>n\<close> rounds, from which the last loop below
  terminates: no recorded length is above \<open>n\<close>, and the best match lies in
  \<open>a[alo:alo+n]\<close>.
\<close>

definition flm_inv :: "nat \<Rightarrow> nat \<Rightarrow> (nat \<rightharpoonup> nat) \<times> (nat \<times> nat \<times> nat) \<Rightarrow> bool" where
  "flm_inv alo n st =
     (case st of (j2len, (besti, bestj, bestsize)) \<Rightarrow>
        (\<forall>j l. j2len j = Some l \<longrightarrow> l \<le> n) \<and> alo \<le> besti \<and> besti + bestsize \<le> alo + n)"

lemma flm_inner_inv:
  assumes old: "\<forall>j l. j2len j = Some l \<longrightarrow> l \<le> n"
  shows "flm_inv alo (Suc n) (new, best) \<Longrightarrow>
     flm_inv alo (Suc n) (flm_inner (alo + n) blo bhi j2len js new best)"
proof (induction js arbitrary: new best)
  case Nil
  then show ?case by simp
next
  case (Cons j js)
  obtain besti bestj bestsize where best: "best = (besti, bestj, bestsize)"
    by (cases best)
  define k where "k = (if j = 0 then 0 else (case j2len (j - 1) of Some l \<Rightarrow> l | None \<Rightarrow> 0)) + 1"
  have k: "k \<le> Suc n" "0 < k"
    using old by (auto simp: k_def split: option.splits)
  have step: "flm_inv alo (Suc n) (new(j \<mapsto> k),
      if k > bestsize then (alo + n + 1 - k, j + 1 - k, k) else best)"
    using Cons.prems k by (auto simp: flm_inv_def best)
  show ?case
  proof (cases "j < blo")
    case True
    then show ?thesis using Cons by simp
  next
    case False
    show ?thesis
    proof (cases "j \<ge> bhi")
      case True
      then show ?thesis using False Cons.prems by simp
    next
      case lt: False
      have eq: "flm_inner (alo + n) blo bhi j2len (j # js) new best =
          flm_inner (alo + n) blo bhi j2len js (new(j \<mapsto> k))
            (if k > bestsize then (alo + n + 1 - k, j + 1 - k, k) else best)"
        using False lt by (simp add: best k_def Let_def)
      show ?thesis
        unfolding eq by (rule Cons.IH [OF step])
    qed
  qed
qed

lemma flm_outer_inv:
  assumes "flm_inv alo n st"
  shows "flm_inv alo (Suc n) (flm_outer a b blo bhi st (alo + n))"
proof -
  obtain j2len best where st: "st = (j2len, best)" by (cases st)
  have old: "\<forall>j l. j2len j = Some l \<longrightarrow> l \<le> n"
    using assms by (auto simp: flm_inv_def st)
  have start: "flm_inv alo (Suc n) (Map.empty, best)"
    using assms by (auto simp: flm_inv_def st)
  show ?thesis
    unfolding flm_outer_def st using flm_inner_inv [OF old start] by simp
qed

lemma flm_loop_inv:
  "flm_inv alo n (foldl (flm_outer a b blo bhi) (Map.empty, (alo, blo, 0)) [alo..<alo + n])"
proof (induction n)
  case 0
  then show ?case by (simp add: flm_inv_def)
next
  case (Suc n)
  have "[alo..<alo + Suc n] = [alo..<alo + n] @ [alo + n]"
    by simp
  then show ?case
    using flm_outer_inv [OF Suc] by (simp del: upt_Suc)
qed

lemma flm_loop_bounds:
  assumes "snd (foldl (flm_outer a b blo bhi) (Map.empty, (alo, blo, 0)) [alo..<ahi]) = (i, j, k)"
  shows "alo \<le> i \<and> (i + k \<le> ahi \<or> (k = 0 \<and> i = alo))"
proof (cases "alo \<le> ahi")
  case True
  then have "[alo..<ahi] = [alo..<alo + (ahi - alo)]" by simp
  then have "flm_inv alo (ahi - alo) (foldl (flm_outer a b blo bhi) (Map.empty, (alo, blo, 0)) [alo..<ahi])"
    using flm_loop_inv [of alo "ahi - alo" a b blo bhi] by simp
  then show ?thesis
    using assms True
    by (cases "foldl (flm_outer a b blo bhi) (Map.empty, (alo, blo, 0)) [alo..<ahi]")
      (auto simp: flm_inv_def)
next
  case False
  then show ?thesis using assms by simp
qed

lemma extend_left_bounds:
  "alo \<le> i \<and> (i + k \<le> ahi \<or> (k = 0 \<and> i = alo)) \<Longrightarrow>
   extend_left a b alo blo (i, j, k) = (i', j', k') \<Longrightarrow>
   alo \<le> i' \<and> (i' + k' \<le> ahi \<or> (k' = 0 \<and> i' = alo))"
proof (induction a b alo blo "(i, j, k)" arbitrary: i j k rule: extend_left.induct)
  case (1 a b alo blo besti bestj bestsize)
  show ?case
  proof (cases "besti > alo \<and> bestj > blo \<and> a ! (besti - 1) = b ! (bestj - 1)")
    case True
    then have "extend_left a b alo blo (besti - 1, bestj - 1, bestsize + 1) = (i', j', k')"
      using 1(3) by (subst (asm) extend_left.simps) simp
    moreover have "alo \<le> besti - 1 \<and> (besti - 1 + (bestsize + 1) \<le> ahi \<or> (bestsize + 1 = 0 \<and> besti - 1 = alo))"
      using True 1(2) by auto
    ultimately show ?thesis
      using 1(1) True by blast
  next
    case False
    then have "(besti, bestj, bestsize) = (i', j', k')"
      using 1(3) by (subst (asm) extend_left.simps) auto
    then show ?thesis using 1(2) by auto
  qed
qed

lemma extend_right_bounds:
  "alo \<le> i \<and> (i + k \<le> ahi \<or> (k = 0 \<and> i = alo)) \<Longrightarrow>
   extend_right a b ahi bhi (i, j, k) = (i', j', k') \<Longrightarrow>
   alo \<le> i' \<and> (i' + k' \<le> ahi \<or> (k' = 0 \<and> i' = alo))"
proof (induction a b ahi bhi "(i, j, k)" arbitrary: i j k rule: extend_right.induct)
  case (1 a b ahi bhi besti bestj bestsize)
  show ?case
  proof (cases "besti + bestsize < ahi \<and> bestj + bestsize < bhi \<and>
         a ! (besti + bestsize) = b ! (bestj + bestsize)")
    case True
    then have "extend_right a b ahi bhi (besti, bestj, bestsize + 1) = (i', j', k')"
      using 1(3) by (subst (asm) extend_right.simps) simp
    moreover have "alo \<le> besti \<and> (besti + (bestsize + 1) \<le> ahi \<or> (bestsize + 1 = 0 \<and> besti = alo))"
      using True 1(2) by auto
    ultimately show ?thesis
      using 1(1) True by blast
  next
    case False
    then have "(besti, bestj, bestsize) = (i', j', k')"
      using 1(3) by (subst (asm) extend_right.simps) auto
    then show ?thesis using 1(2) by auto
  qed
qed

lemma find_longest_match_bounds:
  assumes "find_longest_match a b alo ahi blo bhi = (i, j, k)"
  shows "alo \<le> i \<and> (k \<noteq> 0 \<longrightarrow> i + k \<le> ahi)"
proof -
  obtain i0 j0 k0 where l: "snd (foldl (flm_outer a b blo bhi) (Map.empty, (alo, blo, 0)) [alo..<ahi]) = (i0, j0, k0)"
    by (cases "snd (foldl (flm_outer a b blo bhi) (Map.empty, (alo, blo, 0)) [alo..<ahi])")
  obtain i1 j1 k1 where e: "extend_left a b alo blo (i0, j0, k0) = (i1, j1, k1)"
    by (cases "extend_left a b alo blo (i0, j0, k0)")
  have r: "extend_right a b ahi bhi (i1, j1, k1) = (i, j, k)"
    using assms by (simp add: find_longest_match_def l e)
  have "alo \<le> i \<and> (i + k \<le> ahi \<or> (k = 0 \<and> i = alo))"
    using extend_right_bounds [OF extend_left_bounds [OF flm_loop_bounds [OF l] e] r] .
  then show ?thesis by auto
qed

text \<open>
  The loop \<open>while queue\<close> of \<open>get_matching_blocks\<close>. \<open>queue\<close> is used as a stack:
  \<open>queue.pop()\<close> takes the entry appended last, which here is the head of the list, so the
  right part, appended second, comes before the left part.
\<close>

function gmb_loop ::
  "string \<Rightarrow> string \<Rightarrow> (nat \<times> nat \<times> nat \<times> nat) list \<Rightarrow> (nat \<times> nat \<times> nat) list \<Rightarrow>
     (nat \<times> nat \<times> nat) list" where
  "gmb_loop a b [] matching_blocks = matching_blocks"
| "gmb_loop a b ((alo, ahi, blo, bhi) # queue) matching_blocks =
     (case find_longest_match a b alo ahi blo bhi of
        (i, j, k) \<Rightarrow>
          if k \<noteq> 0
          then gmb_loop a b
                 ((if i + k < ahi \<and> j + k < bhi then [(i + k, ahi, j + k, bhi)] else []) @
                  (if alo < i \<and> blo < j then [(alo, i, blo, j)] else []) @ queue)
                 (matching_blocks @ [(i, j, k)])
          else gmb_loop a b queue matching_blocks)"
  by pat_completeness auto
termination
  apply (relation "measure (\<lambda>(a, b, queue, matching_blocks).
    sum_list (map (\<lambda>(alo, ahi, blo, bhi). 2 * (ahi - alo) + 1) queue))")
    apply simp
   apply (auto dest!: find_longest_match_bounds [OF sym])
  done

declare gmb_loop.simps [simp del]

text \<open>
  The loop that joins adjacent blocks: \<open>(i1, j1, k1)\<close> is the block being grown and
  \<open>non_adjacent\<close> the list built so far; after the loop the last block is appended if it
  is not empty.
\<close>

fun collapse_adjacent ::
  "nat \<times> nat \<times> nat \<Rightarrow> (nat \<times> nat \<times> nat) list \<Rightarrow> (nat \<times> nat \<times> nat) list \<Rightarrow>
     (nat \<times> nat \<times> nat) list" where
  "collapse_adjacent (i1, j1, k1) non_adjacent [] =
     (if k1 \<noteq> 0 then non_adjacent @ [(i1, j1, k1)] else non_adjacent)"
| "collapse_adjacent (i1, j1, k1) non_adjacent ((i2, j2, k2) # rest) =
     (if i1 + k1 = i2 \<and> j1 + k1 = j2 then collapse_adjacent (i1, j1, k1 + k2) non_adjacent rest
      else collapse_adjacent (i2, j2, k2)
             (if k1 \<noteq> 0 then non_adjacent @ [(i1, j1, k1)] else non_adjacent) rest)"

text \<open>
  \<open>get_matching_blocks\<close>: the blocks are sorted (tuples compare lexicographically), adjacent
  ones are joined, and the dummy \<open>(la, lb, 0)\<close> closes the list.
\<close>

definition get_matching_blocks :: "string \<Rightarrow> string \<Rightarrow> (nat \<times> nat \<times> nat) list" where
  "get_matching_blocks a b =
     collapse_adjacent (0, 0, 0) []
       (sort (gmb_loop a b [(0, length a, 0, length b)] [])) @ [(length a, length b, 0)]"

text \<open>
  \<open>_calculate_ratio\<close> and \<open>ratio\<close>. Python computes \<open>2.0 * matches / length\<close> in floating
  point; the model keeps the exact quotient.
\<close>

definition calculate_ratio :: "nat \<Rightarrow> nat \<Rightarrow> rat" where
  "calculate_ratio matches len = (if len \<noteq> 0 then 2 * of_nat matches / of_nat len else 1)"

definition ratio :: "string \<Rightarrow> string \<Rightarrow> rat" where
  "ratio a b =
     calculate_ratio (sum_list (map (\<lambda>(i, j, k). k) (get_matching_blocks a b)))
       (length a + length b)"

section \<open>Entity records and merge\_entities\<close>

text \<open>
  The value of an attribute that the resolver does not interpret: a string, a list of
  strings, or a number.
\<close>

datatype val = VStr string | VList "string list" | VInt int

text \<open>
  An entity is a Python dict. The keys \<open>id\<close> and \<open>name\<close> are required and hold strings,
  the key \<open>aliases\<close> may be absent (\<open>None\<close>) and holds a list of strings, and
  \<open>ent_attrs\<close> holds every other key with its value, in the order of the dict. Copying a
  record (\<open>deepcopy\<close>) is the identity on these values.
\<close>

record entity =
  ent_id :: string
  ent_name :: string
  ent_aliases :: "string list option"
  ent_attrs :: "(string \<times> val) list"

text \<open>\<open>canon.get("aliases", [])\<close>\<close>

definition aliases_or_empty :: "entity \<Rightarrow> string list" where
  "aliases_or_empty e = (case ent_aliases e of Some as \<Rightarrow> as | None \<Rightarrow> [])"

text \<open>
  The scan \<open>for canon in canonical_entities\<close>, the same in \<open>dedupe_entities.py\<close> and
  \<open>resolve_entities.py\<close>: the result is the position of \<open>matched\<close> in the list, or \<open>None\<close>
  when the loop ends without a \<open>break\<close>. The exact test comes before the fuzzy one.
\<close>

fun find_matched :: "rat \<Rightarrow> string \<Rightarrow> entity list \<Rightarrow> nat \<Rightarrow> nat option" where
  "find_matched sim_threshold ent_name_norm [] i = None"
| "find_matched sim_threshold ent_name_norm (canon # rest) i =
     (let canon_name_norm = normalize_name (ent_name canon);
          canon_aliases_norm = map normalize_name (aliases_or_empty canon)
      in if ent_name_norm = canon_name_norm \<or> ent_name_norm \<in> set canon_aliases_norm then Some i
         else if ratio ent_name_norm canon_name_norm \<ge> sim_threshold then Some i
         else find_matched sim_threshold ent_name_norm rest (Suc i))"

subsection \<open>dedupe\_entities.py\<close>

text \<open>
  \<open>list({*xs, *ys})\<close> lists a set in the order in which Python iterates over it, which the
  language leaves open and which changes from run to run for strings. The order is a
  parameter \<open>set_order\<close> of the model: \<open>set_order (xs @ ys)\<close> is the list that the set built
  from the elements of \<open>xs\<close> and then of \<open>ys\<close> gives. \<open>insertion_order\<close> is one such order.
\<close>

definition insertion_order :: "string list \<Rightarrow> string list" where
  "insertion_order xs = rev (remdups (rev xs))"

text \<open>
  One round of \<open>for k, v in ent.items()\<close> for a key \<open>k\<close> other than \<open>id\<close>, \<open>name\<close> and
  \<open>aliases\<close>: a new key is added at the end of the dict, and two lists are replaced by
  their union.
\<close>

definition merge_attr ::
  "(string list \<Rightarrow> string list) \<Rightarrow> (string \<times> val) list \<Rightarrow> string \<times> val \<Rightarrow> (string \<times> val) list" where
  "merge_attr set_order attrs kv =
     (case kv of (k, v) \<Rightarrow>
        (case map_of attrs k of
           None \<Rightarrow> attrs @ [(k, v)]
         | Some old \<Rightarrow>
             (case (old, v) of
                (VList xs, VList ys) \<Rightarrow>
                  map (\<lambda>(k', v'). if k' = k then (k', VList (set_order (xs @ ys))) else (k', v')) attrs
              | _ \<Rightarrow> attrs)))"

text \<open>
  The branch \<open>if matched\<close>. The loop over \<open>ent.items()\<close> does nothing for the keys \<open>id\<close>
  and \<open>name\<close>, which \<open>matched\<close> has and which hold strings. For the key \<open>aliases\<close>, when
  \<open>ent\<close> has it, both values are lists, and the aliases of \<open>matched\<close> are replaced by the
  union.
\<close>

definition dedupe_merge_into :: "(string list \<Rightarrow> string list) \<Rightarrow> entity \<Rightarrow> entity \<Rightarrow> entity" where
  "dedupe_merge_into set_order matched ent =
     (let aliases0 = aliases_or_empty matched;
          aliases1 = (if ent_name ent \<noteq> ent_name matched \<and> ent_name ent \<notin> set aliases0
                      then aliases0 @ [ent_name ent] else aliases0);
          aliases2 = (case ent_aliases ent of
                        None \<Rightarrow> aliases1
                      | Some v \<Rightarrow> set_order (aliases1 @ v))
      in matched\<lparr>ent_aliases := Some aliases2,
                 ent_attrs := foldl (merge_attr set_order) (ent_attrs matched) (ent_attrs ent)\<rparr>)"

text \<open>\<open>new_canon = deepcopy(ent)\<close>, with \<open>aliases\<close> set to \<open>[]\<close> when the key is absent.\<close>

definition dedupe_new_canon :: "entity \<Rightarrow> entity" where
  "dedupe_new_canon ent = ent\<lparr>ent_aliases := Some (aliases_or_empty ent)\<rparr>"

text \<open>
  One round of \<open>for ent in entities\<close>; the state is \<open>(canonical_entities, resolved_map)\<close>.
  \<open>matched\<close> is the dict in the list, so a change of \<open>matched\<close> is a change at its position.
  The \<open>print\<close> of a merge is left out.
\<close>

definition dedupe_merge_step ::
  "(string list \<Rightarrow> string list) \<Rightarrow> rat \<Rightarrow> entity list \<times> (string \<rightharpoonup> string) \<Rightarrow> entity \<Rightarrow>
     entity list \<times> (string \<rightharpoonup> string)" where
  "dedupe_merge_step set_order sim_threshold st ent =
     (case st of (canonical_entities, resolved_map) \<Rightarrow>
        (case find_matched sim_threshold (normalize_name (ent_name ent)) canonical_entities 0 of
           Some i \<Rightarrow>
             let matched = dedupe_merge_into set_order (canonical_entities ! i) ent
             in (canonical_entities[i := matched], resolved_map(ent_id ent \<mapsto> ent_id matched))
         | None \<Rightarrow>
             let new_canon = dedupe_new_canon ent
             in (canonical_entities @ [new_canon], resolved_map(ent_id ent \<mapsto> ent_id new_canon))))"

definition dedupe_merge_entities ::
  "(string list \<Rightarrow> string list) \<Rightarrow> entity list \<Rightarrow> rat \<Rightarrow> entity list \<times> (string \<rightharpoonup> string)" where
  "dedupe_merge_entities set_order entities sim_threshold =
     foldl (dedupe_merge_step set_order sim_threshold) ([], Map.empty) entities"

subsection \<open>resolve\_entities.py\<close>

text \<open>The branch \<open>if matched\<close>: only the name of \<open>ent\<close> is recorded.\<close>

definition resolve_merge_into :: "entity \<Rightarrow> entity \<Rightarrow> entity" where
  "resolve_merge_into matched ent =
     (let aliases0 = aliases_or_empty matched;
          aliases1 = (if ent_name ent \<noteq> ent_name matched \<and> ent_name ent \<notin> set aliases0
                      then aliases0 @ [ent_name ent] else aliases0)
      in matched\<lparr>ent_aliases := Some aliases1\<rparr>)"

text \<open>\<open>new_canon = {"id": ent["id"], "name": ent["name"], "aliases": []}\<close>\<close>

definition resolve_new_canon :: "entity \<Rightarrow> entity" where
  "resolve_new_canon ent =
     \<lparr>ent_id = ent_id ent, ent_name = ent_name ent, ent_aliases = Some [], ent_attrs = []\<rparr>"

definition resolve_merge_step ::
  "rat \<Rightarrow> entity list \<times> (string \<rightharpoonup> string) \<Rightarrow> entity \<Rightarrow> entity list \<times> (string \<rightharpoonup> string)" where
  "resolve_merge_step sim_threshold st ent =
     (case st of (canonical_entities, resolved_map) \<Rightarrow>
        (case find_matched sim_threshold (normalize_name (ent_name ent)) canonical_entities 0 of
           Some i \<Rightarrow>
             let matched = resolve_merge_into (canonical_entities ! i) ent
             in (canonical_entities[i := matched], resolved_map(ent_id ent \<mapsto> ent_id matched))
         | None \<Rightarrow>
             let new_canon = resolve_new_canon ent
             in (canonical_entities @ [new_canon], resolved_map(ent_id ent \<mapsto> ent_id new_canon))))"

definition resolve_merge_entities ::
  "entity list \<Rightarrow> rat \<Rightarrow> entity list \<times> (string \<rightharpoonup> string)" where
  "resolve_merge_entities entities sim_threshold =
     foldl (resolve_merge_step sim_threshold) ([], Map.empty) entities"

subsection \<open>utils\_kg.py\<close>

text \<open>\<open>is_potential_alias(name1, name2)\<close> with its default threshold \<open>0.85\<close>.\<close>

definition is_potential_alias :: "string \<Rightarrow> string \<Rightarrow> bool" where
  "is_potential_alias name1 name2 = (ratio (lower name1) (lower name2) > 17 / 20)"

text \<open>
  This \<open>merge_entities\<close> makes no copy: \<open>canonical_entities.append(ent)\<close> puts the caller's
  dict itself into the result, and \<open>ent["aliases"] = []\<close> and
  \<open>matched["aliases"].append(...)\<close> change the caller's dicts. So the model keeps the
  caller's list \<open>global_entities\<close> as the store: a dict is known by its position in that
  list, \<open>canonical_entities\<close> is a list of positions, and the list after the call is part
  of the result.
\<close>

text \<open>The scan \<open>for canon in canonical_entities\<close>; the result is the position of \<open>matched\<close>.\<close>

fun kg_find_matched :: "entity list \<Rightarrow> string \<Rightarrow> nat list \<Rightarrow> nat option" where
  "kg_find_matched store name [] = None"
| "kg_find_matched store name (c # rest) =
     (let canon = store ! c in
      if lower name = lower (ent_name canon) \<or>
         lower name \<in> set (map lower (aliases_or_empty canon)) \<or>
         is_potential_alias name (ent_name canon)
      then Some c
      else kg_find_matched store name rest)"

text \<open>
  One round of \<open>for ent in global_entities\<close>, for the dict at position \<open>p\<close>; the state is
  \<open>(store, canonical_entities, resolved_map)\<close>.
\<close>

definition kg_merge_step ::
  "entity list \<times> nat list \<times> (string \<rightharpoonup> string) \<Rightarrow> nat \<Rightarrow>
     entity list \<times> nat list \<times> (string \<rightharpoonup> string)" where
  "kg_merge_step st p =
     (case st of (store, canonical_entities, resolved_map) \<Rightarrow>
        let ent = store ! p in
        (case kg_find_matched store (ent_name ent) canonical_entities of
           Some c \<Rightarrow>
             let matched = store ! c;
                 store1 = (if ent_name ent \<notin> set (aliases_or_empty matched)
                           then store[c := matched\<lparr>ent_aliases :=
                                  Some (aliases_or_empty matched @ [ent_name ent])\<rparr>]
                           else store)
             in (store1, canonical_entities, resolved_map(ent_id ent \<mapsto> ent_id matched))
         | None \<Rightarrow>
             let store1 = (if ent_aliases ent = None then store[p := ent\<lparr>ent_aliases := Some []\<rparr>]
                           else store)
             in (store1, canonical_entities @ [p], resolved_map(ent_id ent \<mapsto> ent_id ent))))"

text \<open>
  The result: the caller's list after the call, the positions of the canonical entities in
  it, and the map.
\<close>

definition kg_merge_entities ::
  "entity list \<Rightarrow> entity list \<times> nat list \<times> (string \<rightharpoonup> string)" where
  "kg_merge_entities global_entities =
     foldl kg_merge_step (global_entities, [], Map.empty) [0..<length global_entities]"

section \<open>Relationship records and remap\_relationships\<close>

text \<open>
  A relationship is a Python dict with the keys \<open>source\<close>, \<open>relation\<close> and \<open>target\<close>, which the
  code reads with \<open>rel[...]\<close>, the optional key \<open>evidence_span\<close>, which it reads with
  \<open>rel.get("evidence_span", "")\<close>, and any other keys, kept in the order of the dict.
\<close>

record relationship =
  rel_source :: string
  rel_relation :: string
  rel_target :: string
  rel_evidence_span :: "string option"
  rel_extra :: "(string \<times> val) list"

text \<open>\<open>resolved_map.get(x, x)\<close>\<close>

definition get_or_self :: "(string \<rightharpoonup> string) \<Rightarrow> string \<Rightarrow> string" where
  "get_or_self resolved_map x = (case resolved_map x of Some c \<Rightarrow> c | None \<Rightarrow> x)"

text \<open>\<open>rel_key = (src, rel["relation"], tgt)\<close>\<close>

definition rel_key :: "(string \<rightharpoonup> string) \<Rightarrow> relationship \<Rightarrow> string \<times> string \<times> string" where
  "rel_key resolved_map rel =
     (get_or_self resolved_map (rel_source rel), rel_relation rel,
      get_or_self resolved_map (rel_target rel))"

subsection \<open>dedupe\_entities.py\<close>

text \<open>\<open>new_rel = deepcopy(rel); new_rel["source"] = src; new_rel["target"] = tgt\<close>\<close>

definition dedupe_new_rel :: "(string \<rightharpoonup> string) \<Rightarrow> relationship \<Rightarrow> relationship" where
  "dedupe_new_rel resolved_map rel =
     rel\<lparr>rel_source := get_or_self resolved_map (rel_source rel),
         rel_target := get_or_self resolved_map (rel_target rel)\<rparr>"

text \<open>One round of the loop; the state is \<open>(resolved_relationships, seen)\<close>.\<close>

definition dedupe_remap_step ::
  "(string \<rightharpoonup> string) \<Rightarrow> relationship list \<times> (string \<times> string \<times> string) set \<Rightarrow>
     relationship \<Rightarrow> relationship list \<times> (string \<times> string \<times> string) set" where
  "dedupe_remap_step resolved_map st rel =
     (case st of (resolved_relationships, seen) \<Rightarrow>
        if rel_key resolved_map rel \<notin> seen
        then (resolved_relationships @ [dedupe_new_rel resolved_map rel],
              insert (rel_key resolved_map rel) seen)
        else (resolved_relationships, seen))"

definition dedupe_remap_relationships ::
  "relationship list \<Rightarrow> (string \<rightharpoonup> string) \<Rightarrow> relationship list" where
  "dedupe_remap_relationships relationships resolved_map =
     fst (foldl (dedupe_remap_step resolved_map) ([], {}) relationships)"

subsection \<open>resolve\_entities.py\<close>

text \<open>
  The record that \<open>resolved_relationships.append({...})\<close> builds: four keys, the evidence
  defaulted to the empty string.
\<close>

definition resolve_new_rel :: "(string \<rightharpoonup> string) \<Rightarrow> relationship \<Rightarrow> relationship" where
  "resolve_new_rel resolved_map rel =
     \<lparr>rel_source = get_or_self resolved_map (rel_source rel),
      rel_relation = rel_relation rel,
      rel_target = get_or_self resolved_map (rel_target rel),
      rel_evidence_span = Some (case rel_evidence_span rel of Some e \<Rightarrow> e | None \<Rightarrow> []),
      rel_extra = []\<rparr>"

definition resolve_remap_step ::
  "(string \<rightharpoonup> string) \<Rightarrow> relationship list \<times> (string \<times> string \<times> string) set \<Rightarrow>
     relationship \<Rightarrow> relationship list \<times> (string \<times> string \<times> string) set" where
  "resolve_remap_step resolved_map st rel =
     (case st of (resolved_relationships, seen) \<Rightarrow>
        if rel_key resolved_map rel \<notin> seen
        then (resolved_relationships @ [resolve_new_rel resolved_map rel],
              insert (rel_key resolved_map rel) seen)
        else (resolved_relationships, seen))"

definition resolve_remap_relationships ::
  "relationship list \<Rightarrow> (string \<rightharpoonup> string) \<Rightarrow> relationship list" where
  "resolve_remap_relationships relationships resolved_map =
     fst (foldl (resolve_remap_step resolved_map) ([], {}) relationships)"

subsection \<open>utils\_kg.py\<close>

text \<open>
  Here the endpoints are read with \<open>resolved_map[rel["source"]]\<close> and
  \<open>resolved_map[rel["target"]]\<close>: an id that is not a key of the map raises \<open>KeyError\<close>, and
  the exception ends the loop.
\<close>

fun kg_remap_loop ::
  "(string \<rightharpoonup> string) \<Rightarrow> relationship list \<Rightarrow> (string \<times> string \<times> string) set \<Rightarrow>
     relationship list \<Rightarrow> error + relationship list" where
  "kg_remap_loop resolved_map resolved_relationships seen [] = Inr resolved_relationships"
| "kg_remap_loop resolved_map resolved_relationships seen (rel # rels) =
     (case resolved_map (rel_source rel) of
        None \<Rightarrow> Inl KeyError
      | Some src \<Rightarrow>
          (case resolved_map (rel_target rel) of
             None \<Rightarrow> Inl KeyError
           | Some tgt \<Rightarrow>
               if (src, rel_relation rel, tgt) \<notin> seen
               then kg_remap_loop resolved_map
                      (resolved_relationships @
                         [\<lparr>rel_source = src, rel_relation = rel_relation rel, rel_target = tgt,
                           rel_evidence_span =
                             Some (case rel_evidence_span rel of Some e \<Rightarrow> e | None \<Rightarrow> []),
                           rel_extra = []\<rparr>])
                      (insert (src, rel_relation rel, tgt) seen) rels
               else kg_remap_loop resolved_map resolved_relationships seen rels))"

definition kg_remap_relationships ::
  "relationship list \<Rightarrow> (string \<rightharpoonup> string) \<Rightarrow> error + relationship list" where
  "kg_remap_relationships global_relationships resolved_map =
     kg_remap_loop resolved_map [] {} global_relationships"

text \<open>
  The positions of a list of keys at which the key occurs for the first time, in
  increasing order.
\<close>

definition first_occurrences :: "'k list \<Rightarrow> nat list" where
  "first_occurrences ks = filter (\<lambda>i. ks ! i \<notin> set (take i ks)) [0..<length ks]"

text \<open>The identity key of a record of the output: its own source, relation and target.\<close>

definition triple :: "relationship \<Rightarrow> string \<times> string \<times> string" where
  "triple rel = (rel_source rel, rel_relation rel, rel_target rel)"

section \<open>finalize\_entities\_and\_relationships\<close>

text \<open>\<open>valid_ids = {e["id"] for e in canonical_entities}\<close>\<close>

definition valid_ids :: "entity list \<Rightarrow> string set" where
  "valid_ids canonical_entities = set (map ent_id canonical_entities)"

subsection \<open>dedupe\_entities.py\<close>

text \<open>
  The condition of the list comprehension: both endpoints are keys of the map, and both
  mapped values are ids of canonical entities.
\<close>

definition dedupe_is_valid :: "(string \<rightharpoonup> string) \<Rightarrow> string set \<Rightarrow> relationship \<Rightarrow> bool" where
  "dedupe_is_valid resolved_map ids rel =
     (resolved_map (rel_source rel) \<noteq> None \<and> resolved_map (rel_target rel) \<noteq> None \<and>
      the (resolved_map (rel_source rel)) \<in> ids \<and> the (resolved_map (rel_target rel)) \<in> ids)"

text \<open>\<open>filtered_relationships\<close>, for the entities and the relationships of the call.\<close>

definition dedupe_filtered_relationships ::
  "(string list \<Rightarrow> string list) \<Rightarrow> entity list \<Rightarrow> relationship list \<Rightarrow> relationship list" where
  "dedupe_filtered_relationships set_order entities relationships =
     (case dedupe_merge_entities set_order entities (4 / 5) of
        (canonical_entities, resolved_map) \<Rightarrow>
          filter (dedupe_is_valid resolved_map (valid_ids canonical_entities)) relationships)"

text \<open>
  \<open>finalize_entities_and_relationships\<close>: \<open>merge_entities\<close> is called with its default
  threshold \<open>0.8\<close>. The two \<open>deepcopy\<close> calls are the identity on values.
\<close>

definition dedupe_finalize_entities_and_relationships ::
  "(string list \<Rightarrow> string list) \<Rightarrow> entity list \<Rightarrow> relationship list \<Rightarrow>
     entity list \<times> relationship list" where
  "dedupe_finalize_entities_and_relationships set_order entities relationships =
     (case dedupe_merge_entities set_order entities (4 / 5) of
        (canonical_entities, resolved_map) \<Rightarrow>
          (canonical_entities,
           dedupe_remap_relationships
             (dedupe_filtered_relationships set_order entities relationships) resolved_map))"

subsection \<open>resolve\_entities.py\<close>

text \<open>Here the condition asks that the endpoints themselves are ids of canonical entities.\<close>

definition resolve_is_valid :: "string set \<Rightarrow> relationship \<Rightarrow> bool" where
  "resolve_is_valid ids rel = (rel_source rel \<in> ids \<and> rel_target rel \<in> ids)"

definition resolve_filtered_relationships ::
  "entity list \<Rightarrow> relationship list \<Rightarrow> relationship list" where
  "resolve_filtered_relationships entities relationships =
     (case resolve_merge_entities entities (4 / 5) of
        (canonical_entities, resolved_map) \<Rightarrow>
          filter (resolve_is_valid (valid_ids canonical_entities)) relationships)"

definition resolve_finalize_entities_and_relationships ::
  "entity list \<Rightarrow> relationship list \<Rightarrow> entity list \<times> relationship list" where
  "resolve_finalize_entities_and_relationships entities relationships =
     (case resolve_merge_entities entities (4 / 5) of
        (canonical_entities, resolved_map) \<Rightarrow>
          (canonical_entities,
           resolve_remap_relationships
             (resolve_filtered_relationships entities relationships) resolved_map))"

section \<open>Properties of chunk\_text\<close>

lemma hard_split_length:
  "0 < n \<Longrightarrow> c \<in> set (hard_split n s) \<Longrightarrow> length c \<le> n"
proof (induction n s rule: hard_split.induct)
  case (1 n s)
  then show ?case
    by (subst (asm) (2) hard_split.simps) (auto split: if_splits)
qed

lemma strip_length: "length (strip s) \<le> length s"
  unfolding strip_def
  by (metis length_dropWhile_le length_rev order_trans)

lemma chunk_step_bound:
  assumes "0 < m" "\<forall>c\<in>set chunks. length c \<le> m" "length cur \<le> m"
    and "chunk_step m (chunks, cur) s0 = (chunks', cur')"
  shows "(\<forall>c\<in>set chunks'. length c \<le> m) \<and> length cur' \<le> m"
proof -
  have a: "length (strip (cur @ '' '' @ strip s0)) \<le> length cur + length (strip s0) + 1"
    using strip_length [of "cur @ '' '' @ strip s0"] by simp
  show ?thesis
    using assms a
    by (auto simp: chunk_step_def Let_def split: if_splits dest: hard_split_length)
qed

lemma chunk_step_inv:
  assumes "0 < m" "(\<forall>c\<in>set (fst st). length c \<le> m) \<and> length (snd st) \<le> m"
  shows "(\<forall>c\<in>set (fst (chunk_step m st s)). length c \<le> m) \<and> length (snd (chunk_step m st s)) \<le> m"
proof -
  obtain chunks cur where st: "st = (chunks, cur)" by (cases st)
  obtain chunks' cur' where st': "chunk_step m (chunks, cur) s = (chunks', cur')"
    by (cases "chunk_step m (chunks, cur) s")
  have "(\<forall>c\<in>set chunks'. length c \<le> m) \<and> length cur' \<le> m"
    by (rule chunk_step_bound [OF assms(1) _ _ st']) (use assms(2) st in auto)
  then show ?thesis
    unfolding st st' by simp
qed

lemma foldl_chunk_step_bound:
  assumes "0 < m"
  shows "(\<forall>c\<in>set (fst st). length c \<le> m) \<and> length (snd st) \<le> m \<Longrightarrow>
     (\<forall>c\<in>set (fst (foldl (chunk_step m) st ss)). length c \<le> m) \<and>
       length (snd (foldl (chunk_step m) st ss)) \<le> m"
proof (induction ss arbitrary: st)
  case Nil
  then show ?case by simp
next
  case (Cons s ss)
  have "(\<forall>c\<in>set (fst (foldl (chunk_step m) (chunk_step m st s) ss)). length c \<le> m) \<and>
       length (snd (foldl (chunk_step m) (chunk_step m st s) ss)) \<le> m"
    by (rule Cons.IH) (rule chunk_step_inv [OF assms Cons.prems])
  then show ?case
    by simp
qed

lemma pre_overlap_bound:
  assumes m: "0 < m" and c: "c \<in> set (pre_overlap_chunks text m)"
  shows "length c \<le> m"
proof -
  obtain chunks cur where f: "foldl (chunk_step m) ([], []) (split_sentences text) = (chunks, cur)"
    by (cases "foldl (chunk_step m) ([], []) (split_sentences text)")
  have "(\<forall>c\<in>set (fst (foldl (chunk_step m) ([], []) (split_sentences text))). length c \<le> m) \<and>
       length (snd (foldl (chunk_step m) ([], []) (split_sentences text))) \<le> m"
    by (rule foldl_chunk_step_bound [OF m]) simp
  then have "(\<forall>c\<in>set chunks. length c \<le> m) \<and> length cur \<le> m"
    unfolding f by simp
  then show ?thesis
    using c unfolding pre_overlap_chunks_def f by (auto split: if_splits)
qed

lemma hard_split_concat: "0 < n \<Longrightarrow> concat (hard_split n s) = s"
proof (induction n s rule: hard_split.induct)
  case (1 n s)
  then show ?case
    by (subst hard_split.simps) auto
qed

lemma hard_split_butlast:
  "0 < n \<Longrightarrow> c \<in> set (butlast (hard_split n s)) \<Longrightarrow> length c = n"
proof (induction n s rule: hard_split.induct)
  case (1 n s)
  show ?case
  proof (cases "s = []")
    case True
    with 1 show ?thesis by (simp add: hard_split.simps)
  next
    case False
    have hs: "hard_split n s = take n s # hard_split n (drop n s)"
      using False 1(2) by (subst hard_split.simps) simp
    show ?thesis
    proof (cases "hard_split n (drop n s) = []")
      case True
      with hs 1(3) show ?thesis by simp
    next
      case ne: False
      then have "drop n s \<noteq> []" by (auto simp: hard_split.simps)
      then have "length (take n s) = n" by simp
      with 1 hs ne False show ?thesis by auto
    qed
  qed
qed

lemma hard_split_nonempty: "0 < n \<Longrightarrow> c \<in> set (hard_split n s) \<Longrightarrow> c \<noteq> []"
proof (induction n s rule: hard_split.induct)
  case (1 n s)
  then show ?case
    by (subst (asm) (2) hard_split.simps) (auto split: if_splits)
qed

lemma chunk_step_oversized:
  assumes "m < length (strip s0)"
  shows "chunk_step m (chunks, cur) s0 =
     ((if cur \<noteq> [] then chunks @ [cur] else chunks) @ hard_split m (strip s0), [])"
proof -
  have "strip s0 \<noteq> []"
    using assms by auto
  moreover have "\<not> length cur + length (strip s0) + 1 \<le> m"
    using assms by simp
  ultimately show ?thesis
    using assms by (simp add: chunk_step_def Let_def)
qed

lemma chunk_step_prefix: "\<exists>zs. fst (chunk_step m st s0) = fst st @ zs"
  by (cases st) (simp add: chunk_step_def Let_def)

lemma foldl_chunk_step_prefix: "\<exists>zs. fst (foldl (chunk_step m) st ss) = fst st @ zs"
proof (induction ss arbitrary: st)
  case Nil
  then show ?case by simp
next
  case (Cons s ss)
  obtain zs where a: "fst (chunk_step m st s) = fst st @ zs"
    using chunk_step_prefix by blast
  obtain zs' where b: "fst (foldl (chunk_step m) (chunk_step m st s) ss) =
      fst (chunk_step m st s) @ zs'"
    using Cons.IH by blast
  show ?case
    by (simp add: a b)
qed

lemma oversized_in_output:
  assumes "s0 \<in> set (split_sentences text)" and "m < length (strip s0)"
  shows "\<exists>ys zs. pre_overlap_chunks text m = ys @ hard_split m (strip s0) @ zs"
proof -
  obtain xs rest where sp: "split_sentences text = xs @ s0 # rest"
    using assms(1) by (auto simp: in_set_conv_decomp)
  obtain chunks cur where st: "foldl (chunk_step m) ([], []) xs = (chunks, cur)"
    by (cases "foldl (chunk_step m) ([], []) xs")
  define chunks1 where "chunks1 = (if cur \<noteq> [] then chunks @ [cur] else chunks)"
  have step: "chunk_step m (chunks, cur) s0 = (chunks1 @ hard_split m (strip s0), [])"
    unfolding chunks1_def by (rule chunk_step_oversized [OF assms(2)])
  obtain zs where rest: "fst (foldl (chunk_step m) (chunks1 @ hard_split m (strip s0), []) rest) =
      (chunks1 @ hard_split m (strip s0)) @ zs"
    using foldl_chunk_step_prefix [of m "(chunks1 @ hard_split m (strip s0), [])" rest] by auto
  obtain fin cur' where fin: "foldl (chunk_step m) (chunks1 @ hard_split m (strip s0), []) rest = (fin, cur')"
    by (cases "foldl (chunk_step m) (chunks1 @ hard_split m (strip s0), []) rest")
  have all: "foldl (chunk_step m) ([], []) (split_sentences text) = (fin, cur')"
    by (simp add: sp st step fin)
  have f: "fin = chunks1 @ hard_split m (strip s0) @ zs"
    using rest fin by simp
  show ?thesis
  proof (cases "cur' \<noteq> []")
    case True
    then have "pre_overlap_chunks text m = chunks1 @ hard_split m (strip s0) @ (zs @ [cur'])"
      by (simp add: pre_overlap_chunks_def all f)
    then show ?thesis by blast
  next
    case False
    then have "pre_overlap_chunks text m = chunks1 @ hard_split m (strip s0) @ zs"
      by (simp add: pre_overlap_chunks_def all f)
    then show ?thesis by blast
  qed
qed

text \<open>
  Claim C8. For every text and every \<open>max_chars > 0\<close>, every chunk that \<open>chunk_text\<close> has
  produced before the overlap pass is at most \<open>max_chars\<close> characters long; these chunks are
  what \<open>chunk_text\<close> returns when \<open>overlap\<close> is \<open>0\<close>. For every sentence fragment of the
  text whose stripped form \<open>s\<close> is longer than \<open>max_chars\<close>, the slices \<open>hard_split max_chars s\<close>
  stand in the output as they are, one after the other. The slices of any \<open>s\<close> put together
  give \<open>s\<close> back; each slice is non-empty and at most \<open>max_chars\<close> long, and each slice but
  the last is exactly \<open>max_chars\<close> characters long.
\<close>

theorem chunk_text_pre_overlap_bound:
  assumes "0 < max_chars"
  shows "(\<forall>c\<in>set (pre_overlap_chunks text max_chars). length c \<le> max_chars) \<and>
    chunk_text text (int max_chars) 0 = Inr (pre_overlap_chunks text max_chars) \<and>
    (\<forall>s0\<in>set (split_sentences text). max_chars < length (strip s0) \<longrightarrow>
       (\<exists>ys zs. pre_overlap_chunks text max_chars =
          ys @ hard_split max_chars (strip s0) @ zs)) \<and>
    concat (hard_split max_chars s) = s \<and>
    (\<forall>p\<in>set (butlast (hard_split max_chars s)). length p = max_chars) \<and>
    (\<forall>p\<in>set (hard_split max_chars s). p \<noteq> [] \<and> length p \<le> max_chars)"
proof -
  have bound: "\<forall>c\<in>set (pre_overlap_chunks text max_chars). length c \<le> max_chars"
    using assms by (auto simp: pre_overlap_bound)
  have ret: "chunk_text text (int max_chars) 0 = Inr (pre_overlap_chunks text max_chars)"
    using assms by (simp add: chunk_text_def apply_overlap_def)
  have slices: "\<forall>s0\<in>set (split_sentences text). max_chars < length (strip s0) \<longrightarrow>
       (\<exists>ys zs. pre_overlap_chunks text max_chars =
          ys @ hard_split max_chars (strip s0) @ zs)"
    using oversized_in_output by blast
  have cat: "concat (hard_split max_chars s) = s"
    using assms by (rule hard_split_concat)
  have full: "\<forall>p\<in>set (butlast (hard_split max_chars s)). length p = max_chars"
    using assms by (auto simp: hard_split_butlast)
  have each: "\<forall>p\<in>set (hard_split max_chars s). p \<noteq> [] \<and> length p \<le> max_chars"
    using assms by (auto dest: hard_split_nonempty hard_split_length)
  show ?thesis
    using bound ret slices cat full each by blast
qed

text \<open>
  The witness is the text \<open>"ab cdefg"\<close> with \<open>max_chars = 3\<close>: one fragment of eight
  characters, cut into \<open>"ab "\<close>, \<open>"cde"\<close> and \<open>"fg"\<close>; the first slice keeps its space.
\<close>

theorem chunk_text_pre_overlap_bound_witness:
  "chunk_text ''ab cdefg'' 3 0 = Inr [''ab '', ''cde'', ''fg''] \<and>
   hard_split 3 (strip ''ab cdefg'') = [''ab '', ''cde'', ''fg''] \<and>
   length ''ab '' \<le> (3::nat) \<and> length ''cde'' \<le> (3::nat) \<and> length ''fg'' \<le> (3::nat) \<and>
   concat (hard_split 3 ''ab cdefg'') = ''ab cdefg''"
proof -
  have e: "pre_overlap_chunks ''ab cdefg'' 3 = [''ab '', ''cde'', ''fg'']"
    by code_simp
  have h: "hard_split 3 (strip ''ab cdefg'') = [''ab '', ''cde'', ''fg'']"
    by code_simp
  have pos: "0 < (3::nat)"
    by simp
  show ?thesis
    using chunk_text_pre_overlap_bound [OF pos, of "''ab cdefg''" "''ab cdefg''"] e h by simp
qed

text \<open>
  Claim C10. Every element of the list that \<open>chunk_text\<close> returns should be a non-empty
  string. The code returns an empty string at \<open>chunk_text("a b", 1, 1)\<close>: the fragment
  \<open>"a b"\<close> is longer than \<open>max_chars\<close> and is cut into \<open>"a"\<close>, \<open>" "\<close>, \<open>"b"\<close>; the overlap
  pass finds no word of the previous chunk that fits into one character and strips
  \<open>"" + " " + " "\<close> to the empty string.
\<close>

theorem chunk_text_returns_empty_chunk:
  "chunk_text ''a b'' 1 1 = Inr [''a'', '''', ''b'']"
  by code_simp

section \<open>The similarity score\<close>








section \<open>Properties of merge\_entities\<close>

text \<open>
  Claim C1. Two entities with the same normalized name should be sent to the same canonical
  entity, whatever the threshold. In \<open>dedupe_entities.py\<close> the loop over \<open>ent.items()\<close> also
  runs for the key \<open>aliases\<close> and puts the aliases that an incoming record carries into the
  canonical entity it is merged into. In the batch below, record 3 (\<open>abcdefgi\<close>, with the
  alias \<open>foo\<close>) is merged by similarity \<open>7/8\<close> into canonical 1, which comes before canonical
  2 (\<open>foo\<close>) in the list; after that, record 4 (\<open>foo\<close>) meets the alias \<open>foo\<close> of canonical 1
  first. So the records 2 and 4, both named \<open>foo\<close>, are mapped to 2 and to 1.
\<close>

theorem dedupe_merge_entities_splits_equal_names:
  "map (snd (dedupe_merge_entities insertion_order
       [\<lparr>ent_id = ''1'', ent_name = ''abcdefgh'', ent_aliases = None, ent_attrs = []\<rparr>,
        \<lparr>ent_id = ''2'', ent_name = ''foo'', ent_aliases = None, ent_attrs = []\<rparr>,
        \<lparr>ent_id = ''3'', ent_name = ''abcdefgi'', ent_aliases = Some [''foo''], ent_attrs = []\<rparr>,
        \<lparr>ent_id = ''4'', ent_name = ''foo'', ent_aliases = None, ent_attrs = []\<rparr>]
       (4 / 5)))
     [''1'', ''2'', ''3'', ''4''] = [Some ''1'', Some ''2'', Some ''1'', Some ''1'']"
  by code_simp

text \<open>
  Claim C5. The aliases of a canonical entity should be a list that only grows at its end.
  In \<open>dedupe_entities.py\<close> the loop over \<open>ent.items()\<close> replaces them by
  \<open>list({*matched["aliases"], *v})\<close> as soon as the incoming record has a key \<open>aliases\<close>,
  even an empty one: the list is then in the order of a Python set, whatever that order is.
  Below, \<open>Dr Watson\<close> and \<open>watson\<close> are merged into \<open>Watson\<close> in this order, and the
  result is \<open>set_order\<close> of them.
\<close>

theorem dedupe_merge_entities_aliases_in_set_order:
  "map ent_aliases (fst (dedupe_merge_entities set_order
       [\<lparr>ent_id = ''1'', ent_name = ''Watson'', ent_aliases = None, ent_attrs = []\<rparr>,
        \<lparr>ent_id = ''2'', ent_name = ''Dr Watson'', ent_aliases = None, ent_attrs = []\<rparr>,
        \<lparr>ent_id = ''3'', ent_name = ''watson'', ent_aliases = Some [], ent_attrs = []\<rparr>]
       (4 / 5)))
     = [Some (set_order [''Dr Watson'', ''watson''])]"
  by code_simp

text \<open>
  Claim C9. A call should leave the caller's records as they were. \<open>merge_entities\<close> of
  \<open>utils_kg.py\<close> takes no copy: after the call on the two records below, the first record
  of the caller's list has a key \<open>aliases\<close>, which holds the name of the second.
\<close>

theorem kg_merge_entities_changes_input:
  "fst (kg_merge_entities
       [\<lparr>ent_id = ''1'', ent_name = ''Watson'', ent_aliases = None, ent_attrs = []\<rparr>,
        \<lparr>ent_id = ''2'', ent_name = ''watson'', ent_aliases = None, ent_attrs = []\<rparr>])
     = [\<lparr>ent_id = ''1'', ent_name = ''Watson'', ent_aliases = Some [''watson''], ent_attrs = []\<rparr>,
        \<lparr>ent_id = ''2'', ent_name = ''watson'', ent_aliases = None, ent_attrs = []\<rparr>]"
  by code_simp

section \<open>Invariants of merge\_entities\<close>

text \<open>
  The scan returns a position of the list it scans, and it returns \<open>None\<close> when no
  candidate passes the exact test or the fuzzy test.
\<close>

lemma find_matched_bound:
  "find_matched thr n cs k = Some i \<Longrightarrow> k \<le> i \<and> i < k + length cs"
proof (induction cs arbitrary: k)
  case Nil
  then show ?case by simp
next
  case (Cons c cs)
  show ?case
  proof (cases "find_matched thr n (c # cs) k = Some k")
    case True
    then show ?thesis using Cons.prems by simp
  next
    case False
    then have "find_matched thr n cs (Suc k) = Some i"
      using Cons.prems by (simp add: Let_def split: if_splits)
    then have "Suc k \<le> i \<and> i < Suc k + length cs"
      by (rule Cons.IH)
    then show ?thesis by simp
  qed
qed

lemma find_matched_None:
  "(find_matched thr n cs k = None) =
     (\<forall>c\<in>set cs. n \<noteq> normalize_name (ent_name c) \<and>
        n \<notin> normalize_name ` set (aliases_or_empty c) \<and>
        ratio n (normalize_name (ent_name c)) < thr)"
  by (induction cs arbitrary: k) (auto simp: Let_def)

text \<open>
  A merge never changes the \<open>id\<close> of a canonical entity. So after every round each value
  of the resolution map is the id of a canonical entity, and the id of each canonical entity
  is a key of the map.
\<close>

lemma dedupe_merge_into_id: "ent_id (dedupe_merge_into so m e) = ent_id m"
  by (simp add: dedupe_merge_into_def Let_def)

lemma resolve_merge_into_id: "ent_id (resolve_merge_into m e) = ent_id m"
  by (simp add: resolve_merge_into_def Let_def)

lemma ids_update:
  assumes "i < length cs" and "ent_id x = ent_id (cs ! i)"
  shows "map ent_id (cs[i := x]) = map ent_id cs"
  using assms by (simp add: map_update list_update_same_conv)

lemma ran_upd_subset: "ran m \<subseteq> A \<Longrightarrow> v \<in> A \<Longrightarrow> ran (m(k \<mapsto> v)) \<subseteq> A"
  by (auto simp: ran_def split: if_splits)

lemma dedupe_merge_step_inv:
  assumes "ran m \<subseteq> set (map ent_id cs)" and "set (map ent_id cs) \<subseteq> dom m"
    and "dedupe_merge_step so thr (cs, m) e = (cs', m')"
  shows "ran m' \<subseteq> set (map ent_id cs') \<and> set (map ent_id cs') \<subseteq> dom m'"
proof (cases "find_matched thr (normalize_name (ent_name e)) cs 0")
  case None
  then have c: "cs' = cs @ [dedupe_new_canon e]" and m: "m' = m(ent_id e \<mapsto> ent_id e)"
    using assms(3) by (auto simp: dedupe_merge_step_def dedupe_new_canon_def Let_def)
  have "ran m' \<subseteq> set (map ent_id cs')"
    unfolding m by (rule ran_upd_subset) (use assms(1) in \<open>auto simp: c dedupe_new_canon_def\<close>)
  moreover have "set (map ent_id cs') \<subseteq> dom m'"
    using assms(2) by (auto simp: c m dedupe_new_canon_def)
  ultimately show ?thesis by simp
next
  case (Some i)
  then have i: "i < length cs"
    using find_matched_bound [of thr _ cs 0 i] by simp
  have c: "cs' = cs[i := dedupe_merge_into so (cs ! i) e]"
    and m: "m' = m(ent_id e \<mapsto> ent_id (cs ! i))"
    using assms(3) Some by (auto simp: dedupe_merge_step_def Let_def dedupe_merge_into_id)
  have ids: "map ent_id cs' = map ent_id cs"
    unfolding c by (rule ids_update [OF i]) (rule dedupe_merge_into_id)
  have v: "ent_id (cs ! i) \<in> set (map ent_id cs)"
    using i by simp
  have "ran m' \<subseteq> set (map ent_id cs')"
    unfolding m ids by (rule ran_upd_subset [OF assms(1) v])
  moreover have "set (map ent_id cs') \<subseteq> dom m'"
    unfolding ids using assms(2) by (auto simp: m)
  ultimately show ?thesis by simp
qed

lemma resolve_merge_step_inv:
  assumes "ran m \<subseteq> set (map ent_id cs)" and "set (map ent_id cs) \<subseteq> dom m"
    and "resolve_merge_step thr (cs, m) e = (cs', m')"
  shows "ran m' \<subseteq> set (map ent_id cs') \<and> set (map ent_id cs') \<subseteq> dom m'"
proof (cases "find_matched thr (normalize_name (ent_name e)) cs 0")
  case None
  then have c: "cs' = cs @ [resolve_new_canon e]" and m: "m' = m(ent_id e \<mapsto> ent_id e)"
    using assms(3) by (auto simp: resolve_merge_step_def resolve_new_canon_def Let_def)
  have "ran m' \<subseteq> set (map ent_id cs')"
    unfolding m by (rule ran_upd_subset) (use assms(1) in \<open>auto simp: c resolve_new_canon_def\<close>)
  moreover have "set (map ent_id cs') \<subseteq> dom m'"
    using assms(2) by (auto simp: c m resolve_new_canon_def)
  ultimately show ?thesis by simp
next
  case (Some i)
  then have i: "i < length cs"
    using find_matched_bound [of thr _ cs 0 i] by simp
  have c: "cs' = cs[i := resolve_merge_into (cs ! i) e]"
    and m: "m' = m(ent_id e \<mapsto> ent_id (cs ! i))"
    using assms(3) Some by (auto simp: resolve_merge_step_def Let_def resolve_merge_into_id)
  have ids: "map ent_id cs' = map ent_id cs"
    unfolding c by (rule ids_update [OF i]) (rule resolve_merge_into_id)
  have v: "ent_id (cs ! i) \<in> set (map ent_id cs)"
    using i by simp
  have "ran m' \<subseteq> set (map ent_id cs')"
    unfolding m ids by (rule ran_upd_subset [OF assms(1) v])
  moreover have "set (map ent_id cs') \<subseteq> dom m'"
    unfolding ids using assms(2) by (auto simp: m)
  ultimately show ?thesis by simp
qed

lemma merge_fold_inv:
  assumes step: "\<And>cs m e cs' m'. ran m \<subseteq> set (map ent_id cs) \<Longrightarrow> set (map ent_id cs) \<subseteq> dom m \<Longrightarrow>
      f (cs, m) e = (cs', m') \<Longrightarrow>
      ran m' \<subseteq> set (map ent_id cs') \<and> set (map ent_id cs') \<subseteq> dom m'"
  shows "ran (snd st) \<subseteq> set (map ent_id (fst st)) \<Longrightarrow> set (map ent_id (fst st)) \<subseteq> dom (snd st) \<Longrightarrow>
     ran (snd (foldl f st es)) \<subseteq> set (map ent_id (fst (foldl f st es))) \<and>
     set (map ent_id (fst (foldl f st es))) \<subseteq> dom (snd (foldl f st es))"
proof (induction es arbitrary: st)
  case Nil
  then show ?case by simp
next
  case (Cons e es)
  obtain cs m where st: "st = (cs, m)" by (cases st)
  obtain cs' m' where st': "f (cs, m) e = (cs', m')" by (cases "f (cs, m) e")
  have a: "ran m' \<subseteq> set (map ent_id cs') \<and> set (map ent_id cs') \<subseteq> dom m'"
    using Cons.prems by (intro step [OF _ _ st']) (simp_all add: st)
  have "ran (snd (foldl f (cs', m') es)) \<subseteq> set (map ent_id (fst (foldl f (cs', m') es))) \<and>
     set (map ent_id (fst (foldl f (cs', m') es))) \<subseteq> dom (snd (foldl f (cs', m') es))"
    using a by (intro Cons.IH) simp_all
  then show ?case
    by (simp add: st st')
qed

lemma dedupe_merge_entities_inv:
  "ran (snd (dedupe_merge_entities so es thr)) \<subseteq> valid_ids (fst (dedupe_merge_entities so es thr)) \<and>
   valid_ids (fst (dedupe_merge_entities so es thr)) \<subseteq> dom (snd (dedupe_merge_entities so es thr))"
  unfolding dedupe_merge_entities_def valid_ids_def
  by (rule merge_fold_inv [OF dedupe_merge_step_inv]) simp_all

lemma resolve_merge_entities_inv:
  "ran (snd (resolve_merge_entities es thr)) \<subseteq> valid_ids (fst (resolve_merge_entities es thr)) \<and>
   valid_ids (fst (resolve_merge_entities es thr)) \<subseteq> dom (snd (resolve_merge_entities es thr))"
  unfolding resolve_merge_entities_def valid_ids_def
  by (rule merge_fold_inv [OF resolve_merge_step_inv]) simp_all

text \<open>
  The last round of the loop, and the branch \<open>else\<close> of a round in which the scan ends with
  \<open>matched = None\<close>.
\<close>

lemma dedupe_merge_entities_snoc:
  "dedupe_merge_entities so (es @ [e]) thr =
     dedupe_merge_step so thr (dedupe_merge_entities so es thr) e"
  by (simp add: dedupe_merge_entities_def)

lemma resolve_merge_entities_snoc:
  "resolve_merge_entities (es @ [e]) thr =
     resolve_merge_step thr (resolve_merge_entities es thr) e"
  by (simp add: resolve_merge_entities_def)

lemma dedupe_merge_step_unmatched:
  assumes "find_matched thr (normalize_name (ent_name e)) (fst st) 0 = None"
  shows "dedupe_merge_step so thr st e =
     (fst st @ [e\<lparr>ent_aliases := Some (case ent_aliases e of Some as \<Rightarrow> as | None \<Rightarrow> [])\<rparr>],
      (snd st)(ent_id e \<mapsto> ent_id e))"
  using assms
  by (cases st) (simp add: dedupe_merge_step_def dedupe_new_canon_def aliases_or_empty_def)

lemma resolve_merge_step_unmatched:
  assumes "find_matched thr (normalize_name (ent_name e)) (fst st) 0 = None"
  shows "resolve_merge_step thr st e =
     (fst st @ [\<lparr>ent_id = ent_id e, ent_name = ent_name e, ent_aliases = Some [],
                 ent_attrs = []\<rparr>],
      (snd st)(ent_id e \<mapsto> ent_id e))"
  using assms
  by (cases st) (simp add: resolve_merge_step_def resolve_new_canon_def)

section \<open>A new canonical entity\<close>

text \<open>
  Claim C4, as far as it holds. Let \<open>e\<close> be the entity that comes after the entities \<open>es\<close>
  of a batch, and let it match none of the canonical entities that \<open>merge_entities\<close>, called
  with its default threshold \<open>0.8\<close>, has built from \<open>es\<close>: its normalized name is not the
  normalized name nor a normalized alias of any of them, and its score with the normalized
  name of each of them is below the threshold. Then the round for \<open>e\<close> leaves these
  canonical entities as they are, appends one entity, and maps the id of \<open>e\<close> to itself.
  In \<open>dedupe_entities.py\<close> the appended entity is the record \<open>e\<close> with every key kept,
  and with \<open>aliases\<close> set to \<open>[]\<close> when \<open>e\<close> has no such key. In \<open>resolve_entities.py\<close>
  it has the id and the name of \<open>e\<close>, the aliases \<open>[]\<close>, and no other key.
\<close>

theorem merge_entities_new_canonical:
  "((\<forall>c\<in>set (fst (dedupe_merge_entities set_order es (4 / 5))).
       normalize_name (ent_name e) \<noteq> normalize_name (ent_name c) \<and>
       normalize_name (ent_name e) \<notin>
         normalize_name ` set (case ent_aliases c of Some as \<Rightarrow> as | None \<Rightarrow> []) \<and>
       ratio (normalize_name (ent_name e)) (normalize_name (ent_name c)) < 4 / 5) \<longrightarrow>
    dedupe_merge_entities set_order (es @ [e]) (4 / 5) =
      (fst (dedupe_merge_entities set_order es (4 / 5)) @
         [e\<lparr>ent_aliases := Some (case ent_aliases e of Some as \<Rightarrow> as | None \<Rightarrow> [])\<rparr>],
       (snd (dedupe_merge_entities set_order es (4 / 5)))(ent_id e \<mapsto> ent_id e))) \<and>
   ((\<forall>c\<in>set (fst (resolve_merge_entities es (4 / 5))).
       normalize_name (ent_name e) \<noteq> normalize_name (ent_name c) \<and>
       normalize_name (ent_name e) \<notin>
         normalize_name ` set (case ent_aliases c of Some as \<Rightarrow> as | None \<Rightarrow> []) \<and>
       ratio (normalize_name (ent_name e)) (normalize_name (ent_name c)) < 4 / 5) \<longrightarrow>
    resolve_merge_entities (es @ [e]) (4 / 5) =
      (fst (resolve_merge_entities es (4 / 5)) @
         [\<lparr>ent_id = ent_id e, ent_name = ent_name e, ent_aliases = Some [], ent_attrs = []\<rparr>],
       (snd (resolve_merge_entities es (4 / 5)))(ent_id e \<mapsto> ent_id e)))"
proof (intro conjI impI)
  assume "\<forall>c\<in>set (fst (dedupe_merge_entities set_order es (4 / 5))).
       normalize_name (ent_name e) \<noteq> normalize_name (ent_name c) \<and>
       normalize_name (ent_name e) \<notin>
         normalize_name ` set (case ent_aliases c of Some as \<Rightarrow> as | None \<Rightarrow> []) \<and>
       ratio (normalize_name (ent_name e)) (normalize_name (ent_name c)) < 4 / 5"
  then have "find_matched (4 / 5) (normalize_name (ent_name e))
      (fst (dedupe_merge_entities set_order es (4 / 5))) 0 = None"
    unfolding find_matched_None aliases_or_empty_def .
  then show "dedupe_merge_entities set_order (es @ [e]) (4 / 5) =
      (fst (dedupe_merge_entities set_order es (4 / 5)) @
         [e\<lparr>ent_aliases := Some (case ent_aliases e of Some as \<Rightarrow> as | None \<Rightarrow> [])\<rparr>],
       (snd (dedupe_merge_entities set_order es (4 / 5)))(ent_id e \<mapsto> ent_id e))"
    unfolding dedupe_merge_entities_snoc by (rule dedupe_merge_step_unmatched)
next
  assume "\<forall>c\<in>set (fst (resolve_merge_entities es (4 / 5))).
       normalize_name (ent_name e) \<noteq> normalize_name (ent_name c) \<and>
       normalize_name (ent_name e) \<notin>
         normalize_name ` set (case ent_aliases c of Some as \<Rightarrow> as | None \<Rightarrow> []) \<and>
       ratio (normalize_name (ent_name e)) (normalize_name (ent_name c)) < 4 / 5"
  then have "find_matched (4 / 5) (normalize_name (ent_name e))
      (fst (resolve_merge_entities es (4 / 5))) 0 = None"
    unfolding find_matched_None aliases_or_empty_def .
  then show "resolve_merge_entities (es @ [e]) (4 / 5) =
      (fst (resolve_merge_entities es (4 / 5)) @
         [\<lparr>ent_id = ent_id e, ent_name = ent_name e, ent_aliases = Some [], ent_attrs = []\<rparr>],
       (snd (resolve_merge_entities es (4 / 5)))(ent_id e \<mapsto> ent_id e))"
    unfolding resolve_merge_entities_snoc by (rule resolve_merge_step_unmatched)
qed

text \<open>
  The witness: \<open>John\<close>, with an attribute \<open>type\<close>, comes after \<open>Watson\<close> and matches
  nothing.
\<close>

theorem merge_entities_new_canonical_witness:
  "fst (dedupe_merge_entities insertion_order
     [\<lparr>ent_id = ''1'', ent_name = ''Watson'', ent_aliases = None, ent_attrs = []\<rparr>,
      \<lparr>ent_id = ''3'', ent_name = ''John'', ent_aliases = None,
       ent_attrs = [(''type'', VStr ''person'')]\<rparr>] (4 / 5)) =
     [\<lparr>ent_id = ''1'', ent_name = ''Watson'', ent_aliases = Some [], ent_attrs = []\<rparr>,
      \<lparr>ent_id = ''3'', ent_name = ''John'', ent_aliases = Some [],
       ent_attrs = [(''type'', VStr ''person'')]\<rparr>] \<and>
   snd (dedupe_merge_entities insertion_order
     [\<lparr>ent_id = ''1'', ent_name = ''Watson'', ent_aliases = None, ent_attrs = []\<rparr>,
      \<lparr>ent_id = ''3'', ent_name = ''John'', ent_aliases = None,
       ent_attrs = [(''type'', VStr ''person'')]\<rparr>] (4 / 5)) ''3'' = Some ''3'' \<and>
   fst (resolve_merge_entities
     [\<lparr>ent_id = ''1'', ent_name = ''Watson'', ent_aliases = None, ent_attrs = []\<rparr>,
      \<lparr>ent_id = ''3'', ent_name = ''John'', ent_aliases = None,
       ent_attrs = [(''type'', VStr ''person'')]\<rparr>] (4 / 5)) =
     [\<lparr>ent_id = ''1'', ent_name = ''Watson'', ent_aliases = Some [], ent_attrs = []\<rparr>,
      \<lparr>ent_id = ''3'', ent_name = ''John'', ent_aliases = Some [], ent_attrs = []\<rparr>] \<and>
   snd (resolve_merge_entities
     [\<lparr>ent_id = ''1'', ent_name = ''Watson'', ent_aliases = None, ent_attrs = []\<rparr>,
      \<lparr>ent_id = ''3'', ent_name = ''John'', ent_aliases = None,
       ent_attrs = [(''type'', VStr ''person'')]\<rparr>] (4 / 5)) ''3'' = Some ''3''"
proof -
  let ?w = "\<lparr>ent_id = ''1'', ent_name = ''Watson'', ent_aliases = None, ent_attrs = []\<rparr>"
  let ?j = "\<lparr>ent_id = ''3'', ent_name = ''John'', ent_aliases = None,
       ent_attrs = [(''type'', VStr ''person'')]\<rparr>"
  have hd: "\<forall>c\<in>set (fst (dedupe_merge_entities insertion_order [?w] (4 / 5))).
       normalize_name (ent_name ?j) \<noteq> normalize_name (ent_name c) \<and>
       normalize_name (ent_name ?j) \<notin>
         normalize_name ` set (case ent_aliases c of Some as \<Rightarrow> as | None \<Rightarrow> []) \<and>
       ratio (normalize_name (ent_name ?j)) (normalize_name (ent_name c)) < 4 / 5"
    by code_simp
  have hr: "\<forall>c\<in>set (fst (resolve_merge_entities [?w] (4 / 5))).
       normalize_name (ent_name ?j) \<noteq> normalize_name (ent_name c) \<and>
       normalize_name (ent_name ?j) \<notin>
         normalize_name ` set (case ent_aliases c of Some as \<Rightarrow> as | None \<Rightarrow> []) \<and>
       ratio (normalize_name (ent_name ?j)) (normalize_name (ent_name c)) < 4 / 5"
    by code_simp
  have pd: "fst (dedupe_merge_entities insertion_order [?w] (4 / 5)) =
      [\<lparr>ent_id = ''1'', ent_name = ''Watson'', ent_aliases = Some [], ent_attrs = []\<rparr>]"
    by code_simp
  have pr: "fst (resolve_merge_entities [?w] (4 / 5)) =
      [\<lparr>ent_id = ''1'', ent_name = ''Watson'', ent_aliases = Some [], ent_attrs = []\<rparr>]"
    by code_simp
  have ed: "dedupe_merge_entities insertion_order ([?w] @ [?j]) (4 / 5) =
      (fst (dedupe_merge_entities insertion_order [?w] (4 / 5)) @
         [?j\<lparr>ent_aliases := Some (case ent_aliases ?j of Some as \<Rightarrow> as | None \<Rightarrow> [])\<rparr>],
       (snd (dedupe_merge_entities insertion_order [?w] (4 / 5)))(ent_id ?j \<mapsto> ent_id ?j))"
    by (rule merge_entities_new_canonical [THEN conjunct1, THEN mp, OF hd])
  have er: "resolve_merge_entities ([?w] @ [?j]) (4 / 5) =
      (fst (resolve_merge_entities [?w] (4 / 5)) @
         [\<lparr>ent_id = ent_id ?j, ent_name = ent_name ?j, ent_aliases = Some [], ent_attrs = []\<rparr>],
       (snd (resolve_merge_entities [?w] (4 / 5)))(ent_id ?j \<mapsto> ent_id ?j))"
    by (rule merge_entities_new_canonical [THEN conjunct2, THEN mp, OF hr])
  have app: "[?w] @ [?j] = [?w, ?j]"
    by simp
  show ?thesis
    using ed er unfolding app pd pr by simp
qed

text \<open>
  In \<open>resolve_entities.py\<close> the new canonical entity is no copy of the incoming record:
  a single entity with the aliases \<open>["Doc"]\<close> and the attribute \<open>type\<close> gives a canonical
  entity with neither.
\<close>

theorem resolve_merge_entities_drops_attributes:
  "fst (resolve_merge_entities
     [\<lparr>ent_id = ''1'', ent_name = ''Watson'', ent_aliases = Some [''Doc''],
       ent_attrs = [(''type'', VStr ''person'')]\<rparr>] (4 / 5)) =
     [\<lparr>ent_id = ''1'', ent_name = ''Watson'', ent_aliases = Some [], ent_attrs = []\<rparr>] \<and>
   fst (resolve_merge_entities
     [\<lparr>ent_id = ''1'', ent_name = ''Watson'', ent_aliases = Some [''Doc''],
       ent_attrs = [(''type'', VStr ''person'')]\<rparr>] (4 / 5)) \<noteq>
     [\<lparr>ent_id = ''1'', ent_name = ''Watson'', ent_aliases = Some [''Doc''],
       ent_attrs = [(''type'', VStr ''person'')]\<rparr>]"
proof -
  have a: "fst (resolve_merge_entities
     [\<lparr>ent_id = ''1'', ent_name = ''Watson'', ent_aliases = Some [''Doc''],
       ent_attrs = [(''type'', VStr ''person'')]\<rparr>] (4 / 5)) =
     [\<lparr>ent_id = ''1'', ent_name = ''Watson'', ent_aliases = Some [], ent_attrs = []\<rparr>]"
    by code_simp
  show ?thesis
    unfolding a by simp
qed

lemma first_occurrences_bound: "i \<in> set (first_occurrences ks) \<Longrightarrow> i < length ks"
  by (simp add: first_occurrences_def)

lemma first_occurrences_snoc:
  "first_occurrences (ks @ [k]) =
     first_occurrences ks @ (if k \<in> set ks then [] else [length ks])"
proof -
  have "filter (\<lambda>i. (ks @ [k]) ! i \<notin> set (take i (ks @ [k]))) [0..<length ks] =
        filter (\<lambda>i. ks ! i \<notin> set (take i ks)) [0..<length ks]"
    by (rule filter_cong) (auto simp: nth_append)
  then show ?thesis
    by (simp add: first_occurrences_def)
qed

lemma remap_fold_generic:
  assumes step: "\<And>out seen r. step (out, seen) r =
      (if key r \<notin> seen then (out @ [f r], insert (key r) seen) else (out, seen))"
  shows "foldl step ([], {}) rels =
      (map (\<lambda>i. f (rels ! i)) (first_occurrences (map key rels)), set (map key rels))"
proof (induction rels rule: rev_induct)
  case Nil
  then show ?case by (simp add: first_occurrences_def)
next
  case (snoc r rels)
  have old: "map (\<lambda>i. f ((rels @ [r]) ! i)) (first_occurrences (map key rels)) =
             map (\<lambda>i. f (rels ! i)) (first_occurrences (map key rels))"
    by (rule map_cong) (auto simp: nth_append dest: first_occurrences_bound)
  show ?case
    by (simp add: snoc.IH step first_occurrences_snoc old insert_absorb)
qed

lemma dedupe_remap_fold:
  "foldl (dedupe_remap_step m) ([], {}) rels =
      (map (\<lambda>i. dedupe_new_rel m (rels ! i)) (first_occurrences (map (rel_key m) rels)),
       set (map (rel_key m) rels))"
  by (rule remap_fold_generic) (simp add: dedupe_remap_step_def)

lemma resolve_remap_fold:
  "foldl (resolve_remap_step m) ([], {}) rels =
      (map (\<lambda>i. resolve_new_rel m (rels ! i)) (first_occurrences (map (rel_key m) rels)),
       set (map (rel_key m) rels))"
  by (rule remap_fold_generic) (simp add: resolve_remap_step_def)

lemma first_occurrences_distinct:
  "distinct (map (\<lambda>i. ks ! i) (first_occurrences ks))"
proof (induction ks rule: rev_induct)
  case Nil
  then show ?case by (simp add: first_occurrences_def)
next
  case (snoc k ks)
  have old: "map (\<lambda>i. (ks @ [k]) ! i) (first_occurrences ks) = map (\<lambda>i. ks ! i) (first_occurrences ks)"
    by (rule map_cong) (auto simp: nth_append dest: first_occurrences_bound)
  have sub: "set (map (\<lambda>i. ks ! i) (first_occurrences ks)) \<subseteq> set ks"
    by (auto dest: first_occurrences_bound)
  show ?case
    using snoc.IH sub by (auto simp: first_occurrences_snoc old simp del: map_map)
qed

lemma first_occurrences_set:
  "set (map (\<lambda>i. ks ! i) (first_occurrences ks)) = set ks"
proof (induction ks rule: rev_induct)
  case Nil
  then show ?case by (simp add: first_occurrences_def)
next
  case (snoc k ks)
  have old: "map (\<lambda>i. (ks @ [k]) ! i) (first_occurrences ks) = map (\<lambda>i. ks ! i) (first_occurrences ks)"
    by (rule map_cong) (auto simp: nth_append dest: first_occurrences_bound)
  have "set (map (\<lambda>i. (ks @ [k]) ! i) (first_occurrences (ks @ [k]))) =
        set (map (\<lambda>i. ks ! i) (first_occurrences ks)) \<union> (if k \<in> set ks then {} else {k})"
    by (simp add: first_occurrences_snoc old)
  then show ?case
    using snoc.IH by auto
qed

lemma triple_dedupe_new_rel: "triple (dedupe_new_rel m r) = rel_key m r"
  by (simp add: triple_def dedupe_new_rel_def rel_key_def)

lemma triple_resolve_new_rel: "triple (resolve_new_rel m r) = rel_key m r"
  by (simp add: triple_def resolve_new_rel_def rel_key_def)

lemma dedupe_remap_relationships_eq:
  "dedupe_remap_relationships rels m =
     map (\<lambda>i. dedupe_new_rel m (rels ! i)) (first_occurrences (map (rel_key m) rels))"
  by (simp add: dedupe_remap_relationships_def dedupe_remap_fold)

lemma resolve_remap_relationships_eq:
  "resolve_remap_relationships rels m =
     map (\<lambda>i. resolve_new_rel m (rels ! i)) (first_occurrences (map (rel_key m) rels))"
  by (simp add: resolve_remap_relationships_def resolve_remap_fold)

lemma map_key_first_occurrences:
  "map (\<lambda>i. key (rels ! i)) (first_occurrences (map key rels)) =
     map (\<lambda>i. map key rels ! i) (first_occurrences (map key rels))"
  by (rule map_cong) (auto dest: first_occurrences_bound)

lemma triples_dedupe_remap:
  "map triple (dedupe_remap_relationships rels m) =
     map (\<lambda>i. map (rel_key m) rels ! i) (first_occurrences (map (rel_key m) rels))"
  by (simp add: dedupe_remap_relationships_eq comp_def triple_dedupe_new_rel
      map_key_first_occurrences)

lemma triples_resolve_remap:
  "map triple (resolve_remap_relationships rels m) =
     map (\<lambda>i. map (rel_key m) rels ! i) (first_occurrences (map (rel_key m) rels))"
  by (simp add: resolve_remap_relationships_eq comp_def triple_resolve_new_rel
      map_key_first_occurrences)

text \<open>
  Claim C6. \<open>remap_relationships\<close> (in \<open>dedupe_entities.py\<close> and in \<open>resolve_entities.py\<close>)
  removes duplicates by the triple (canonical source, relation, canonical target), where the
  canonical id of an endpoint \<open>x\<close> is the value of the resolution map at \<open>x\<close>, and \<open>x\<close> itself
  when the map has no entry for it. The output is made of the remapped records of exactly
  those input positions at which this triple occurs for the first time, in the order of the
  input: so it has one record for each distinct triple, later duplicates are dropped, and the
  record that stays is built from the first occurrence and carries its \<open>evidence_span\<close>,
  which is no part of the key.
\<close>

theorem remap_relationships_first_occurrence:
  "dedupe_remap_relationships rels m =
     map (\<lambda>i. dedupe_new_rel m (rels ! i)) (first_occurrences (map (rel_key m) rels)) \<and>
   resolve_remap_relationships rels m =
     map (\<lambda>i. resolve_new_rel m (rels ! i)) (first_occurrences (map (rel_key m) rels)) \<and>
   distinct (map triple (dedupe_remap_relationships rels m)) \<and>
   distinct (map triple (resolve_remap_relationships rels m)) \<and>
   set (map triple (dedupe_remap_relationships rels m)) = set (map (rel_key m) rels) \<and>
   set (map triple (resolve_remap_relationships rels m)) = set (map (rel_key m) rels) \<and>
   triple (dedupe_new_rel m r) = rel_key m r \<and>
   triple (resolve_new_rel m r) = rel_key m r \<and>
   rel_evidence_span (dedupe_new_rel m r) = rel_evidence_span r \<and>
   rel_evidence_span (resolve_new_rel m r) =
     Some (case rel_evidence_span r of Some e \<Rightarrow> e | None \<Rightarrow> []) \<and>
   rel_key m r =
     ((case m (rel_source r) of Some c \<Rightarrow> c | None \<Rightarrow> rel_source r), rel_relation r,
      (case m (rel_target r) of Some c \<Rightarrow> c | None \<Rightarrow> rel_target r)) \<and>
   sorted (first_occurrences ks) \<and> distinct (first_occurrences ks) \<and>
   set (first_occurrences ks) = {i. i < length ks \<and> ks ! i \<notin> set (take i ks)}"
proof -
  have d: "distinct (map triple (dedupe_remap_relationships rels m))"
    unfolding triples_dedupe_remap by (rule first_occurrences_distinct)
  have r: "distinct (map triple (resolve_remap_relationships rels m))"
    unfolding triples_resolve_remap by (rule first_occurrences_distinct)
  have sd: "set (map triple (dedupe_remap_relationships rels m)) = set (map (rel_key m) rels)"
    unfolding triples_dedupe_remap by (rule first_occurrences_set)
  have sr: "set (map triple (resolve_remap_relationships rels m)) = set (map (rel_key m) rels)"
    unfolding triples_resolve_remap by (rule first_occurrences_set)
  have ed: "rel_evidence_span (dedupe_new_rel m r) = rel_evidence_span r"
    by (simp add: dedupe_new_rel_def)
  have er: "rel_evidence_span (resolve_new_rel m r) =
      Some (case rel_evidence_span r of Some e \<Rightarrow> e | None \<Rightarrow> [])"
    by (simp add: resolve_new_rel_def)
  have key: "rel_key m r =
     ((case m (rel_source r) of Some c \<Rightarrow> c | None \<Rightarrow> rel_source r), rel_relation r,
      (case m (rel_target r) of Some c \<Rightarrow> c | None \<Rightarrow> rel_target r))"
    by (simp add: rel_key_def get_or_self_def)
  have so: "sorted (first_occurrences ks)"
    by (simp add: first_occurrences_def sorted_wrt_filter)
  have di: "distinct (first_occurrences ks)"
    by (simp add: first_occurrences_def)
  have se: "set (first_occurrences ks) = {i. i < length ks \<and> ks ! i \<notin> set (take i ks)}"
    by (auto simp: first_occurrences_def)
  show ?thesis
    using d r sd sr ed er key so di se dedupe_remap_relationships_eq [of rels m]
      resolve_remap_relationships_eq [of rels m] triple_dedupe_new_rel [of m r]
      triple_resolve_new_rel [of m r]
    by blast
qed

text \<open>
  The witness is the example of \<open>resolve_entities.py\<close>: entity 2 has been merged into
  entity 1, so \<open>2 -works_with-> 3\<close> and \<open>1 -works_with-> 3\<close> have the same canonical triple,
  and the one record that stays carries the evidence \<open>text1\<close> of the first.
\<close>

theorem remap_relationships_first_occurrence_witness:
  "dedupe_remap_relationships
     [\<lparr>rel_source = ''2'', rel_relation = ''works_with'', rel_target = ''3'',
       rel_evidence_span = Some ''text1'', rel_extra = []\<rparr>,
      \<lparr>rel_source = ''1'', rel_relation = ''works_with'', rel_target = ''3'',
       rel_evidence_span = Some ''text2'', rel_extra = []\<rparr>]
     [''1'' \<mapsto> ''1'', ''2'' \<mapsto> ''1'', ''3'' \<mapsto> ''3'']
   = [\<lparr>rel_source = ''1'', rel_relation = ''works_with'', rel_target = ''3'',
       rel_evidence_span = Some ''text1'', rel_extra = []\<rparr>] \<and>
   resolve_remap_relationships
     [\<lparr>rel_source = ''2'', rel_relation = ''works_with'', rel_target = ''3'',
       rel_evidence_span = Some ''text1'', rel_extra = []\<rparr>,
      \<lparr>rel_source = ''1'', rel_relation = ''works_with'', rel_target = ''3'',
       rel_evidence_span = Some ''text2'', rel_extra = []\<rparr>]
     [''1'' \<mapsto> ''1'', ''2'' \<mapsto> ''1'', ''3'' \<mapsto> ''3'']
   = [\<lparr>rel_source = ''1'', rel_relation = ''works_with'', rel_target = ''3'',
       rel_evidence_span = Some ''text1'', rel_extra = []\<rparr>]"
proof -
  let ?rels = "[\<lparr>rel_source = ''2'', rel_relation = ''works_with'', rel_target = ''3'',
       rel_evidence_span = Some ''text1'', rel_extra = []\<rparr>,
      \<lparr>rel_source = ''1'', rel_relation = ''works_with'', rel_target = ''3'',
       rel_evidence_span = Some ''text2'', rel_extra = []\<rparr>]"
  let ?m = "[''1'' \<mapsto> ''1'', ''2'' \<mapsto> ''1'', ''3'' \<mapsto> ''3'']"
  have a: "map (\<lambda>i. dedupe_new_rel ?m (?rels ! i)) (first_occurrences (map (rel_key ?m) ?rels))
      = [\<lparr>rel_source = ''1'', rel_relation = ''works_with'', rel_target = ''3'',
          rel_evidence_span = Some ''text1'', rel_extra = []\<rparr>]"
    by code_simp
  have b: "map (\<lambda>i. resolve_new_rel ?m (?rels ! i)) (first_occurrences (map (rel_key ?m) ?rels))
      = [\<lparr>rel_source = ''1'', rel_relation = ''works_with'', rel_target = ''3'',
          rel_evidence_span = Some ''text1'', rel_extra = []\<rparr>]"
    by code_simp
  show ?thesis
    using remap_relationships_first_occurrence [of ?rels ?m "hd ?rels" "[] :: nat list"] a b
    by simp
qed

text \<open>
  Claim C7. A relationship whose source or target is no key of the resolution map should pass
  through \<open>remap_relationships\<close> with that endpoint unchanged. \<open>dedupe_entities.py\<close> and
  \<open>resolve_entities.py\<close> read the map with \<open>resolved_map.get(x, x)\<close> and do so; the
  \<open>remap_relationships\<close> of \<open>utils_kg.py\<close> reads it with \<open>resolved_map[x]\<close> and fails with
  \<open>KeyError\<close>: here for the relationship \<open>1 -works_with-> 9\<close> and the map \<open>{"1": "1"}\<close>.
\<close>

theorem kg_remap_relationships_key_error:
  "kg_remap_relationships
     [\<lparr>rel_source = ''1'', rel_relation = ''works_with'', rel_target = ''9'',
       rel_evidence_span = Some ''text1'', rel_extra = []\<rparr>]
     [''1'' \<mapsto> ''1''] = Inl KeyError"
  by code_simp

text \<open>The two other copies are total, and an endpoint that the map does not know stays.\<close>

lemma remap_relationships_tolerant:
  "m (rel_source r) = None \<Longrightarrow>
     rel_source (dedupe_new_rel m r) = rel_source r \<and>
     rel_source (resolve_new_rel m r) = rel_source r"
  "m (rel_target r) = None \<Longrightarrow>
     rel_target (dedupe_new_rel m r) = rel_target r \<and>
     rel_target (resolve_new_rel m r) = rel_target r"
  by (simp_all add: dedupe_new_rel_def resolve_new_rel_def get_or_self_def)

section \<open>The filter of finalize\_entities\_and\_relationships\<close>

text \<open>
  Claim C3. \<open>finalize_entities_and_relationships\<close> remaps the relationships that its filter
  retains. In \<open>dedupe_entities.py\<close> the filter retains, in the order of the input, exactly
  the relationships whose two endpoints are keys of the resolution map and are mapped to ids
  of canonical entities. In \<open>resolve_entities.py\<close> the filter retains the relationships
  whose two endpoints are themselves ids of canonical entities; for each relationship it retains,
  both endpoints are keys of the resolution map and are mapped to ids of canonical entities.
  So in both files a relationship is retained only if both conditions hold for both endpoints.
\<close>

theorem finalize_keeps_valid_relationships_only:
  "dedupe_finalize_entities_and_relationships set_order entities relationships =
     (fst (dedupe_merge_entities set_order entities (4 / 5)),
      dedupe_remap_relationships
        (dedupe_filtered_relationships set_order entities relationships)
        (snd (dedupe_merge_entities set_order entities (4 / 5)))) \<and>
   dedupe_filtered_relationships set_order entities relationships =
     filter (\<lambda>rel. \<exists>s t.
         snd (dedupe_merge_entities set_order entities (4 / 5)) (rel_source rel) = Some s \<and>
         snd (dedupe_merge_entities set_order entities (4 / 5)) (rel_target rel) = Some t \<and>
         s \<in> ent_id ` set (fst (dedupe_merge_entities set_order entities (4 / 5))) \<and>
         t \<in> ent_id ` set (fst (dedupe_merge_entities set_order entities (4 / 5))))
       relationships \<and>
   resolve_finalize_entities_and_relationships entities relationships =
     (fst (resolve_merge_entities entities (4 / 5)),
      resolve_remap_relationships
        (resolve_filtered_relationships entities relationships)
        (snd (resolve_merge_entities entities (4 / 5)))) \<and>
   resolve_filtered_relationships entities relationships =
     filter (\<lambda>rel.
         rel_source rel \<in> ent_id ` set (fst (resolve_merge_entities entities (4 / 5))) \<and>
         rel_target rel \<in> ent_id ` set (fst (resolve_merge_entities entities (4 / 5))))
       relationships \<and>
   (\<forall>rel\<in>set (resolve_filtered_relationships entities relationships).
      rel \<in> set relationships \<and>
      (\<exists>s t.
         snd (resolve_merge_entities entities (4 / 5)) (rel_source rel) = Some s \<and>
         snd (resolve_merge_entities entities (4 / 5)) (rel_target rel) = Some t \<and>
         s \<in> ent_id ` set (fst (resolve_merge_entities entities (4 / 5))) \<and>
         t \<in> ent_id ` set (fst (resolve_merge_entities entities (4 / 5)))))"
proof -
  obtain cd md where d: "dedupe_merge_entities set_order entities (4 / 5) = (cd, md)"
    by (cases "dedupe_merge_entities set_order entities (4 / 5)")
  obtain cr mr where r: "resolve_merge_entities entities (4 / 5) = (cr, mr)"
    by (cases "resolve_merge_entities entities (4 / 5)")
  have inv: "ran mr \<subseteq> ent_id ` set cr" "ent_id ` set cr \<subseteq> dom mr"
    using resolve_merge_entities_inv [of entities "4 / 5"] by (simp_all add: r valid_ids_def)
  have fd: "dedupe_finalize_entities_and_relationships set_order entities relationships =
     (cd, dedupe_remap_relationships
        (dedupe_filtered_relationships set_order entities relationships) md)"
    by (simp add: dedupe_finalize_entities_and_relationships_def d)
  have fr: "resolve_finalize_entities_and_relationships entities relationships =
     (cr, resolve_remap_relationships
        (resolve_filtered_relationships entities relationships) mr)"
    by (simp add: resolve_finalize_entities_and_relationships_def r)
  have vd: "dedupe_is_valid md (valid_ids cd) =
      (\<lambda>rel. \<exists>s t. md (rel_source rel) = Some s \<and> md (rel_target rel) = Some t \<and>
         s \<in> ent_id ` set cd \<and> t \<in> ent_id ` set cd)"
    by (auto simp: dedupe_is_valid_def valid_ids_def fun_eq_iff)
  have gd: "dedupe_filtered_relationships set_order entities relationships =
     filter (\<lambda>rel. \<exists>s t. md (rel_source rel) = Some s \<and> md (rel_target rel) = Some t \<and>
         s \<in> ent_id ` set cd \<and> t \<in> ent_id ` set cd) relationships"
    by (simp add: dedupe_filtered_relationships_def d vd)
  have vr: "resolve_is_valid (valid_ids cr) =
      (\<lambda>rel. rel_source rel \<in> ent_id ` set cr \<and> rel_target rel \<in> ent_id ` set cr)"
    by (auto simp: resolve_is_valid_def valid_ids_def fun_eq_iff)
  have gr: "resolve_filtered_relationships entities relationships =
     filter (\<lambda>rel. rel_source rel \<in> ent_id ` set cr \<and> rel_target rel \<in> ent_id ` set cr)
       relationships"
    by (simp add: resolve_filtered_relationships_def r vr)
  have key: "\<exists>s. mr x = Some s \<and> s \<in> ent_id ` set cr" if "x \<in> ent_id ` set cr" for x
  proof -
    have "x \<in> dom mr"
      using that inv(2) by (rule subsetD [rotated])
    then obtain s where s: "mr x = Some s"
      by (auto simp: dom_def)
    then have "s \<in> ran mr"
      by (auto simp: ran_def)
    then have "s \<in> ent_id ` set cr"
      using inv(1) by (rule subsetD [rotated])
    then show ?thesis
      using s by simp
  qed
  have nec: "\<forall>rel\<in>set (resolve_filtered_relationships entities relationships).
      rel \<in> set relationships \<and>
      (\<exists>s t. mr (rel_source rel) = Some s \<and> mr (rel_target rel) = Some t \<and>
         s \<in> ent_id ` set cr \<and> t \<in> ent_id ` set cr)"
  proof
    fix rel
    assume "rel \<in> set (resolve_filtered_relationships entities relationships)"
    then have m: "rel \<in> set relationships" and a: "rel_source rel \<in> ent_id ` set cr"
      and b: "rel_target rel \<in> ent_id ` set cr"
      unfolding gr by simp_all
    show "rel \<in> set relationships \<and>
      (\<exists>s t. mr (rel_source rel) = Some s \<and> mr (rel_target rel) = Some t \<and>
         s \<in> ent_id ` set cr \<and> t \<in> ent_id ` set cr)"
      using m key [OF a] key [OF b] by blast
  qed
  show ?thesis
    unfolding d r fst_conv snd_conv
    by (intro conjI) (rule fd, rule gd, rule fr, rule gr, rule nec)
qed

text \<open>
  The witness is the example of \<open>resolve_entities.py\<close>, where \<open>Dr Watson\<close> (id 2) is
  merged into \<open>Watson\<close> (id 1). \<open>dedupe_entities.py\<close> retains both relationships.
  \<open>resolve_entities.py\<close> retains the second one, whose endpoints 1 and 3 are keys of the map
  with canonical values; its test is the stronger one, and the first relationship, whose
  source 2 is no canonical id, is not retained.
\<close>

theorem finalize_keeps_valid_relationships_only_witness:
  "dedupe_filtered_relationships insertion_order
     [\<lparr>ent_id = ''1'', ent_name = ''Watson'', ent_aliases = None, ent_attrs = []\<rparr>,
      \<lparr>ent_id = ''2'', ent_name = ''Dr Watson'', ent_aliases = None, ent_attrs = []\<rparr>,
      \<lparr>ent_id = ''3'', ent_name = ''John'', ent_aliases = None, ent_attrs = []\<rparr>]
     [\<lparr>rel_source = ''2'', rel_relation = ''works_with'', rel_target = ''3'',
        rel_evidence_span = Some ''text1'', rel_extra = []\<rparr>,
       \<lparr>rel_source = ''1'', rel_relation = ''works_with'', rel_target = ''3'',
        rel_evidence_span = Some ''text2'', rel_extra = []\<rparr>] =
     [\<lparr>rel_source = ''2'', rel_relation = ''works_with'', rel_target = ''3'',
        rel_evidence_span = Some ''text1'', rel_extra = []\<rparr>,
       \<lparr>rel_source = ''1'', rel_relation = ''works_with'', rel_target = ''3'',
        rel_evidence_span = Some ''text2'', rel_extra = []\<rparr>] \<and>
   resolve_filtered_relationships
     [\<lparr>ent_id = ''1'', ent_name = ''Watson'', ent_aliases = None, ent_attrs = []\<rparr>,
      \<lparr>ent_id = ''2'', ent_name = ''Dr Watson'', ent_aliases = None, ent_attrs = []\<rparr>,
      \<lparr>ent_id = ''3'', ent_name = ''John'', ent_aliases = None, ent_attrs = []\<rparr>]
     [\<lparr>rel_source = ''2'', rel_relation = ''works_with'', rel_target = ''3'',
        rel_evidence_span = Some ''text1'', rel_extra = []\<rparr>,
       \<lparr>rel_source = ''1'', rel_relation = ''works_with'', rel_target = ''3'',
        rel_evidence_span = Some ''text2'', rel_extra = []\<rparr>] =
     [\<lparr>rel_source = ''1'', rel_relation = ''works_with'', rel_target = ''3'',
        rel_evidence_span = Some ''text2'', rel_extra = []\<rparr>] \<and>
   (\<exists>s t.
      snd (resolve_merge_entities
        [\<lparr>ent_id = ''1'', ent_name = ''Watson'', ent_aliases = None, ent_attrs = []\<rparr>,
      \<lparr>ent_id = ''2'', ent_name = ''Dr Watson'', ent_aliases = None, ent_attrs = []\<rparr>,
      \<lparr>ent_id = ''3'', ent_name = ''John'', ent_aliases = None, ent_attrs = []\<rparr>] (4 / 5)) ''1'' = Some s \<and>
      snd (resolve_merge_entities
        [\<lparr>ent_id = ''1'', ent_name = ''Watson'', ent_aliases = None, ent_attrs = []\<rparr>,
      \<lparr>ent_id = ''2'', ent_name = ''Dr Watson'', ent_aliases = None, ent_attrs = []\<rparr>,
      \<lparr>ent_id = ''3'', ent_name = ''John'', ent_aliases = None, ent_attrs = []\<rparr>] (4 / 5)) ''3'' = Some t \<and>
      s \<in> ent_id ` set (fst (resolve_merge_entities
        [\<lparr>ent_id = ''1'', ent_name = ''Watson'', ent_aliases = None, ent_attrs = []\<rparr>,
      \<lparr>ent_id = ''2'', ent_name = ''Dr Watson'', ent_aliases = None, ent_attrs = []\<rparr>,
      \<lparr>ent_id = ''3'', ent_name = ''John'', ent_aliases = None, ent_attrs = []\<rparr>] (4 / 5))) \<and>
      t \<in> ent_id ` set (fst (resolve_merge_entities
        [\<lparr>ent_id = ''1'', ent_name = ''Watson'', ent_aliases = None, ent_attrs = []\<rparr>,
      \<lparr>ent_id = ''2'', ent_name = ''Dr Watson'', ent_aliases = None, ent_attrs = []\<rparr>,
      \<lparr>ent_id = ''3'', ent_name = ''John'', ent_aliases = None, ent_attrs = []\<rparr>] (4 / 5))))"
proof -
  let ?ents = "[\<lparr>ent_id = ''1'', ent_name = ''Watson'', ent_aliases = None, ent_attrs = []\<rparr>,
      \<lparr>ent_id = ''2'', ent_name = ''Dr Watson'', ent_aliases = None, ent_attrs = []\<rparr>,
      \<lparr>ent_id = ''3'', ent_name = ''John'', ent_aliases = None, ent_attrs = []\<rparr>]"
  let ?rels = "[\<lparr>rel_source = ''2'', rel_relation = ''works_with'', rel_target = ''3'',
        rel_evidence_span = Some ''text1'', rel_extra = []\<rparr>,
       \<lparr>rel_source = ''1'', rel_relation = ''works_with'', rel_target = ''3'',
        rel_evidence_span = Some ''text2'', rel_extra = []\<rparr>]"
  let ?r2 = "\<lparr>rel_source = ''1'', rel_relation = ''works_with'', rel_target = ''3'',
        rel_evidence_span = Some ''text2'', rel_extra = []\<rparr>"
  have d: "dedupe_filtered_relationships insertion_order ?ents ?rels = ?rels"
    by code_simp
  have r: "resolve_filtered_relationships ?ents ?rels = [?r2]"
    by code_simp
  have "\<forall>rel\<in>set (resolve_filtered_relationships ?ents ?rels).
      rel \<in> set ?rels \<and>
      (\<exists>s t.
         snd (resolve_merge_entities ?ents (4 / 5)) (rel_source rel) = Some s \<and>
         snd (resolve_merge_entities ?ents (4 / 5)) (rel_target rel) = Some t \<and>
         s \<in> ent_id ` set (fst (resolve_merge_entities ?ents (4 / 5))) \<and>
         t \<in> ent_id ` set (fst (resolve_merge_entities ?ents (4 / 5))))"
    using finalize_keeps_valid_relationships_only [of insertion_order ?ents ?rels]
    by (elim conjE)
  then have "\<exists>s t.
         snd (resolve_merge_entities ?ents (4 / 5)) (rel_source ?r2) = Some s \<and>
         snd (resolve_merge_entities ?ents (4 / 5)) (rel_target ?r2) = Some t \<and>
         s \<in> ent_id ` set (fst (resolve_merge_entities ?ents (4 / 5))) \<and>
         t \<in> ent_id ` set (fst (resolve_merge_entities ?ents (4 / 5)))"
    unfolding r by simp
  then show ?thesis
    using d r by simp
qed


end
